theory Spec2Isabelle
  imports Complex_Main "HOL-Library.Word"
begin

section \<open>Events on the window bus\<close>

text \<open>
  The expression labels are the seven keys of \<open>FaceMoodDetection.emotionConfig\<close>; the
  classifier hands one of them to \<open>updateCurrentEmotion\<close>, or \<open>null\<close> when no face is
  seen. A JavaScript value \<open>string | null\<close> is an \<open>emotion option\<close>, \<open>None\<close> being
  \<open>null\<close>. Times are the integers of \<open>Date.now()\<close> (milliseconds).
\<close>

datatype emotion = Happy | Sad | Angry | Surprised | Neutral | Fearful | Disgusted

type_synonym timestamp = int

text \<open>
  The three \<open>CustomEvent\<close>s dispatched on \<open>window\<close>, with the fields of their
  \<open>detail\<close>: \<open>{emotion, at}\<close>, \<open>{value, average, at}\<close> and
  \<open>{type, value, average, at}\<close>. An average is the quotient of two integers, kept
  exact; \<open>None\<close> is the \<open>NaN\<close> of \<open>0 / 0\<close>. A \<open>value\<close> read past the end of an
  array is \<open>undefined\<close>, here \<open>None\<close>.
\<close>

datatype bus_event =
    EmotionChange "emotion option" timestamp
  | HeartRate int "rat option" timestamp
  | StressDetected string "int option" "rat option" timestamp

fun detail_emotion :: "bus_event \<Rightarrow> emotion option" where
  "detail_emotion (EmotionChange e _) = e"
| "detail_emotion _ = None"

section \<open>FaceMoodDetection.updateCurrentEmotion\<close>

text \<open>
  \<open>lastEmotion\<close> is the field of the class (\<open>null\<close> in the constructor);
  \<open>currentEmotion\<close> is the global \<open>window.currentEmotion\<close>, which every reader
  takes as \<open>window.currentEmotion || null\<close>.
\<close>

record face_mood =
  lastEmotion :: "emotion option"
  currentEmotion :: "emotion option"

definition face_mood_init :: face_mood where
  "face_mood_init = \<lparr>lastEmotion = None, currentEmotion = None\<rparr>"

text \<open>
  \<open>moodEl\<close> says whether \<open>document.getElementById('detected-mood')\<close> found an element:
  without it the method returns at once. The text written into the element is not part
  of the model. The result is the new state and the events dispatched by the call.
\<close>

definition updateCurrentEmotion ::
  "bool \<Rightarrow> face_mood \<Rightarrow> emotion option \<Rightarrow> timestamp \<Rightarrow> face_mood \<times> bus_event list" where
  "updateCurrentEmotion moodEl fm emotionData now =
     (if \<not> moodEl then (fm, [])
      else case emotionData of
        Some e \<Rightarrow>
          if lastEmotion fm \<noteq> Some e
          then (fm\<lparr>lastEmotion := Some e, currentEmotion := Some e\<rparr>,
                [EmotionChange (Some e) now])
          else (fm, [])
      | None \<Rightarrow>
          if lastEmotion fm \<noteq> None
          then (fm\<lparr>lastEmotion := None, currentEmotion := None\<rparr>,
                [EmotionChange None now])
          else (fm, []))"

text \<open>A sequence of calls, one per classification attempt, each with its clock reading.\<close>

fun observe ::
  "bool \<Rightarrow> face_mood \<Rightarrow> (emotion option \<times> timestamp) list \<Rightarrow> face_mood \<times> bus_event list" where
  "observe moodEl fm [] = (fm, [])"
| "observe moodEl fm ((x, now) # rest) =
     (let (fm1, evs1) = updateCurrentEmotion moodEl fm x now;
          (fm2, evs2) = observe moodEl fm1 rest
      in (fm2, evs1 @ evs2))"

section \<open>initDashboard: the games gate and the redirect counter\<close>

text \<open>
  \<open>playBtn\<close> is the \<open>disabled\<close> property of the button and \<open>playLink\<close> the
  \<open>aria-disabled\<close> attribute of the link (\<open>True\<close> for \<open>'true'\<close>); \<open>None\<close> when the
  page has no such element, in which case \<open>updateGamesGate\<close> skips the write.
  \<open>location\<close> lists the assignments to \<open>window.location.href\<close>.
\<close>

record dashboard =
  sadMoodCount :: nat
  hasRedirected :: bool
  playBtn :: "bool option"
  playLink :: "bool option"
  location :: "string list"

definition updateGamesGate :: "dashboard \<Rightarrow> emotion option \<Rightarrow> dashboard" where
  "updateGamesGate d emotion =
     (let locked = (emotion \<noteq> Some Sad)
      in d\<lparr>playBtn := map_option (\<lambda>_. locked) (playBtn d),
            playLink := map_option (\<lambda>_. locked) (playLink d)\<rparr>)"

text \<open>
  The gate part of \<open>initDashboard\<close>: the gate is set from \<open>window.currentEmotion || null\<close>,
  the counter and the latch start at \<open>0\<close> and \<open>false\<close>, and the last statement counts a
  mood that is sad on load. \<open>btn\<close> and \<open>link\<close> are the two elements as the page has them.
\<close>

definition initDashboard :: "bool option \<Rightarrow> bool option \<Rightarrow> emotion option \<Rightarrow> dashboard" where
  "initDashboard btn link cur =
     (let d = updateGamesGate
                \<lparr>sadMoodCount = 0, hasRedirected = False, playBtn = btn, playLink = link,
                 location = []\<rparr> cur
      in if cur = Some Sad then d\<lparr>sadMoodCount := sadMoodCount d + 1\<rparr> else d)"

text \<open>The \<open>emotionchange\<close> listener; \<open>emotion\<close> is \<open>e.detail?.emotion || null\<close>.\<close>

definition onEmotionChange :: "dashboard \<Rightarrow> emotion option \<Rightarrow> dashboard" where
  "onEmotionChange d emotion =
     (let d1 = updateGamesGate d emotion
      in if emotion = Some Sad
         then (let d2 = d1\<lparr>sadMoodCount := sadMoodCount d1 + 1\<rparr>
               in if \<not> hasRedirected d2 \<and> sadMoodCount d2 \<ge> 3
                  then d2\<lparr>hasRedirected := True, location := location d2 @ [''games.html'']\<rparr>
                  else d2)
         else d1)"

text \<open>The states after each event of a stream, and the last of them.\<close>

fun gate_trace :: "dashboard \<Rightarrow> emotion option list \<Rightarrow> dashboard list" where
  "gate_trace d [] = []"
| "gate_trace d (e # es) = onEmotionChange d e # gate_trace (onEmotionChange d e) es"

definition gate_run :: "dashboard \<Rightarrow> emotion option list \<Rightarrow> dashboard" where
  "gate_run d es = foldl onEmotionChange d es"

text \<open>What a reader of the gate sees: button disabled, counter, navigations so far.\<close>

definition gate_view :: "dashboard \<Rightarrow> bool option \<times> nat \<times> string list" where
  "gate_view d = (playBtn d, sadMoodCount d, location d)"

text \<open>
  The invariant of the listener from a fresh dashboard: the latch is set exactly when
  the counter has reached three, and exactly then one navigation has happened.
\<close>

definition gate_inv :: "dashboard \<Rightarrow> bool" where
  "gate_inv d \<longleftrightarrow>
     hasRedirected d = (3 \<le> sadMoodCount d)
     \<and> location d = (if 3 \<le> sadMoodCount d then [''games.html''] else [])"

section \<open>BluetoothHeartRateMonitor\<close>

unbundle bit_operations_syntax

text \<open>
  The fields the heart-rate path reads and writes; the constructor sets the threshold to
  100 and the window to 10. The numbers written into the page are not part of the model.
\<close>

record hr_monitor =
  heartRateData :: "int list"
  stressThreshold :: int
  avgWindow :: nat

definition hr_monitor_init :: hr_monitor where
  "hr_monitor_init = \<lparr>heartRateData = [], stressThreshold = 100, avgWindow = 10\<rparr>"

text \<open>
  \<open>data\<close> is the \<open>Uint8Array\<close> over the characteristic's buffer. The 16-bit branch reads
  \<open>data[2]\<close>, which is \<open>undefined\<close> for a two-byte value and then shifts to \<open>0\<close>; the
  bitwise operators work on 32-bit integers.
\<close>

definition parseHeartRate :: "8 word list \<Rightarrow> int" where
  "parseHeartRate data =
     (if length data \<ge> 2
      then (if (data ! 0) AND 1 \<noteq> 0
            then sint ((ucast (data ! 1) :: 32 word)
                       OR push_bit 8 (case drop 2 data of [] \<Rightarrow> 0 | b # _ \<Rightarrow> ucast b))
            else uint (data ! 1))
      else 0)"

text \<open>\<open>xs.reduce((a, b) => a + b, 0) / xs.length\<close>.\<close>

definition mean :: "int list \<Rightarrow> rat option" where
  "mean xs = (if xs = [] then None else Some (of_int (sum_list xs) / of_nat (length xs)))"

text \<open>\<open>avg > threshold\<close>; a comparison with \<open>NaN\<close> is false.\<close>

definition exceeds :: "rat option \<Rightarrow> int \<Rightarrow> bool" where
  "exceeds avg t = (case avg of None \<Rightarrow> False | Some a \<Rightarrow> a > of_int t)"

definition updateHeartRate ::
  "hr_monitor \<Rightarrow> int \<Rightarrow> timestamp \<Rightarrow> hr_monitor \<times> bus_event list" where
  "updateHeartRate m heartRate now =
     (let pushed = heartRateData m @ [heartRate];
          kept = (if length pushed > avgWindow m then tl pushed else pushed)
      in (m\<lparr>heartRateData := kept\<rparr>, [HeartRate heartRate (mean kept) now]))"

definition triggerStressRelief :: "hr_monitor \<Rightarrow> timestamp \<Rightarrow> bus_event list" where
  "triggerStressRelief m now =
     [StressDetected ''high_heart_rate''
        (if heartRateData m = [] then None else Some (last (heartRateData m)))
        (mean (heartRateData m)) now]"

definition checkForStress :: "hr_monitor \<Rightarrow> int \<Rightarrow> timestamp \<Rightarrow> bus_event list" where
  "checkForStress m heartRate now =
     (if length (heartRateData m) < 3 then []
      else (let avgHeartRate = mean (heartRateData m)
            in if exceeds avgHeartRate (stressThreshold m) \<and> length (heartRateData m) \<ge> 5
               then triggerStressRelief m now
               else []))"

text \<open>
  One notification of the characteristic. \<open>now\<close> and \<open>now'\<close> are the clock readings of
  \<open>updateHeartRate\<close> and of \<open>triggerStressRelief\<close>.
\<close>

definition onHeartRateChanged ::
  "hr_monitor \<Rightarrow> 8 word list \<Rightarrow> timestamp \<Rightarrow> timestamp \<Rightarrow> hr_monitor \<times> bus_event list" where
  "onHeartRateChanged m data now now' =
     (let heartRate = parseHeartRate data
      in if heartRate > 0
         then (let (m1, evs) = updateHeartRate m heartRate now
               in (m1, evs @ checkForStress m1 heartRate now'))
         else (m, []))"

text \<open>A stream of notifications; the events of each notification are kept apart.\<close>

fun notifications ::
  "hr_monitor \<Rightarrow> (8 word list \<times> timestamp \<times> timestamp) list \<Rightarrow> hr_monitor \<times> bus_event list list" where
  "notifications m [] = (m, [])"
| "notifications m ((data, now, now') # rest) =
     (let (m1, evs) = onHeartRateChanged m data now now';
          (m2, evss) = notifications m1 rest
      in (m2, evs # evss))"

text \<open>Successive calls of \<open>updateHeartRate\<close>, one per accepted sample, with their events.\<close>

definition insert_step ::
  "hr_monitor \<times> bus_event list \<Rightarrow> int \<times> timestamp \<Rightarrow> hr_monitor \<times> bus_event list" where
  "insert_step acc x =
     (let (m1, evs) = updateHeartRate (fst acc) (fst x) (snd x) in (m1, snd acc @ evs))"

definition insert_samples ::
  "hr_monitor \<Rightarrow> (int \<times> timestamp) list \<Rightarrow> hr_monitor \<times> bus_event list" where
  "insert_samples m xs = foldl insert_step (m, []) xs"

text \<open>The last \<open>k\<close> elements of a list (all of it when it is shorter).\<close>

definition last_samples :: "nat \<Rightarrow> 'a list \<Rightarrow> 'a list" where
  "last_samples k ys = drop (length ys - k) ys"

section \<open>MoodCounselor\<close>

text \<open>
  The options of the constructor, each possibly left out. \<open>x || d\<close> takes the default
  also for a falsy \<open>x\<close>: the number \<open>0\<close>. An array is truthy even when empty.
\<close>

record counselor_options =
  opt_triggerEmotion :: "emotion option"
  opt_sustainMs :: "int option"
  opt_cooldownMs :: "int option"
  opt_messages :: "string list option"

text \<open>
  The fields of the class, and two components for what lives outside it: \<open>spoken\<close> lists
  the texts handed to \<open>speechSynthesis.speak\<close>, and \<open>pending\<close> is the suspended
  \<open>_speakSupport\<close>: \<open>Some rest\<close> while it awaits the end of an utterance, \<open>rest\<close> being the
  messages the \<open>for\<close> loop has not reached. \<open>_speakSupport\<close> is called only under the
  guard \<open>!this._speaking\<close>, so at most one call is suspended at any time.
\<close>

record counselor =
  triggerEmotion :: emotion
  sustainMs :: int
  cooldownMs :: int
  messages :: "string list"
  sadSince :: "timestamp option"
  cooldownUntil :: timestamp
  speaking :: bool
  pending :: "string list option"
  spoken :: "string list"

definition or_default :: "int option \<Rightarrow> int \<Rightarrow> int" where
  "or_default x d = (case x of None \<Rightarrow> d | Some v \<Rightarrow> if v = 0 then d else v)"

definition MoodCounselor :: "counselor_options \<Rightarrow> counselor" where
  "MoodCounselor options =
     \<lparr>triggerEmotion = (case opt_triggerEmotion options of None \<Rightarrow> Sad | Some e \<Rightarrow> e),
      sustainMs = or_default (opt_sustainMs options) 5000,
      cooldownMs = or_default (opt_cooldownMs options) 60000,
      messages = (case opt_messages options of
         None \<Rightarrow>
           [''I notice you might be feeling a bit low. I'm here with you.'',
            ''It's okay to feel sad sometimes. Would you like a short breathing exercise?'',
            ''Try a slow breath with me: inhale for 4, hold for 4, exhale for 6.'',
            ''You are doing your best. Small steps still count.'']
       | Some ms \<Rightarrow> ms),
      sadSince = None, cooldownUntil = 0, speaking = False, pending = None, spoken = []\<rparr>"

text \<open>The counselor of the page: \<open>new MoodCounselor({ sustainMs: 5000, cooldownMs: 90000 })\<close>.\<close>

definition page_counselor :: counselor where
  "page_counselor =
     MoodCounselor \<lparr>opt_triggerEmotion = None, opt_sustainMs = Some 5000,
                    opt_cooldownMs = Some 90000, opt_messages = None\<rparr>"

text \<open>
  \<open>_speakSupport\<close> up to its first \<open>await\<close>: the flag, the cooldown from its own clock
  reading \<open>now\<close>, and the first utterance. With no message the loop body never runs and
  the \<open>finally\<close> block clears the flag in the same turn.
\<close>

definition speakSupport :: "counselor \<Rightarrow> timestamp \<Rightarrow> counselor" where
  "speakSupport c now =
     (let c1 = c\<lparr>speaking := True, cooldownUntil := now + cooldownMs c\<rparr>
      in case messages c1 of
           [] \<Rightarrow> c1\<lparr>speaking := False\<rparr>
         | line # rest \<Rightarrow> c1\<lparr>spoken := spoken c1 @ [line], pending := Some rest\<rparr>)"

text \<open>
  The end of the current utterance (\<open>utter.onend\<close>) resumes the loop after the
  \<open>await\<close>: the check of \<open>_sadSince\<close>, then the next message or the \<open>finally\<close> block.
\<close>

definition utterance_end :: "counselor \<Rightarrow> counselor" where
  "utterance_end c =
     (case pending c of
        None \<Rightarrow> c
      | Some rest \<Rightarrow>
          if sadSince c = None then c\<lparr>speaking := False, pending := None\<rparr>
          else (case rest of
                  [] \<Rightarrow> c\<lparr>speaking := False, pending := None\<rparr>
                | line # rest' \<Rightarrow> c\<lparr>spoken := spoken c @ [line], pending := Some rest'\<rparr>))"

text \<open>
  \<open>_onEmotion\<close>; \<open>emotion\<close> is \<open>e.detail?.emotion || null\<close>, \<open>now\<close> the clock reading of
  the handler and \<open>now'\<close> the one \<open>_speakSupport\<close> takes when it is called.
\<close>

definition onEmotion ::
  "counselor \<Rightarrow> emotion option \<Rightarrow> timestamp \<Rightarrow> timestamp \<Rightarrow> counselor" where
  "onEmotion c emotion now now' =
     (if emotion = Some (triggerEmotion c)
      then (let since = (case sadSince c of None \<Rightarrow> now | Some t \<Rightarrow> t);
                c1 = c\<lparr>sadSince := Some since\<rparr>
            in if \<not> speaking c1 \<and> now - since \<ge> sustainMs c1 \<and> now \<ge> cooldownUntil c1
               then speakSupport c1 now'
               else c1)
      else c\<lparr>sadSince := None\<rparr>)"

text \<open>What reaches the counselor, in the order the event loop delivers it.\<close>

datatype counselor_input =
    Emotion "emotion option" timestamp timestamp
  | UtteranceEnd

fun counselor_step :: "counselor \<Rightarrow> counselor_input \<Rightarrow> counselor" where
  "counselor_step c (Emotion e now now') = onEmotion c e now now'"
| "counselor_step c UtteranceEnd = utterance_end c"

definition counselor_run :: "counselor \<Rightarrow> counselor_input list \<Rightarrow> counselor" where
  "counselor_run c ins = foldl counselor_step c ins"

text \<open>The streak, started now if none is recorded, has lasted the sustain threshold.\<close>

definition sustained :: "counselor \<Rightarrow> timestamp \<Rightarrow> bool" where
  "sustained c now \<longleftrightarrow>
     sustainMs c \<le> now - (case sadSince c of None \<Rightarrow> now | Some t \<Rightarrow> t)"

text \<open>An emotion event with a clock reading before \<open>t\<close>; ends of utterances carry no time.\<close>

fun input_before :: "timestamp \<Rightarrow> counselor_input \<Rightarrow> bool" where
  "input_before t (Emotion e now now') = (now < t)"
| "input_before t UtteranceEnd = True"

fun away_from :: "emotion \<Rightarrow> counselor_input \<Rightarrow> bool" where
  "away_from target (Emotion e now now') = (e \<noteq> Some target)"
| "away_from target UtteranceEnd = False"

section \<open>MaitriAssistant.analyzeToneAndRespond\<close>

text \<open>
  What one \<open>fetch\<close> gives: the promise rejects, or a response arrives with its status
  and body. \<open>response.json()\<close> rejects on a malformed body; a body that parses to a falsy
  value leaves \<open>response\<close> falsy; otherwise \<open>Reply t\<close> holds
  \<open>response.candidates?.[0]?.content?.parts?.[0]?.text\<close>, \<open>None\<close> when missing or falsy.
\<close>

datatype body = Malformed | Falsy | Reply "string option"

datatype fetch_outcome = Rejected | Response nat body

datatype api_error = FetchRejected | JsonRejected | ApiStatus nat | NoResponse

definition ok :: "nat \<Rightarrow> bool" where
  "ok status \<longleftrightarrow> 200 \<le> status \<and> status \<le> 299"

definition maxRetries :: nat where
  "maxRetries = 3"

definition errorMessage :: string where
  "errorMessage = ''Communication with Earth AI services is delayed. Please re-state your concern or try a simple command.''"

text \<open>
  The \<open>for\<close> loop of the \<open>try\<close> block. \<open>server i\<close> is the outcome of the fetch of
  iteration \<open>i\<close>; the result carries the number of fetches made and the delays waited.
  \<open>Inr None\<close> is a loop left with \<open>response\<close> still \<open>null\<close>.
\<close>

function fetch_loop ::
  "(nat \<Rightarrow> fetch_outcome) \<Rightarrow> nat \<Rightarrow> int \<Rightarrow> int list
     \<Rightarrow> (api_error + body option) \<times> nat \<times> int list" where
  "fetch_loop server i delay waited =
     (if i < maxRetries
      then (case server i of
              Rejected \<Rightarrow> (Inl FetchRejected, i + 1, waited)
            | Response status b \<Rightarrow>
                if ok status
                then (case b of
                        Malformed \<Rightarrow> (Inl JsonRejected, i + 1, waited)
                      | _ \<Rightarrow> (Inr (Some b), i + 1, waited))
                else if status = 429 \<and> i < maxRetries - 1
                then fetch_loop server (i + 1) (delay * 2) (waited @ [delay])
                else (Inl (ApiStatus status), i + 1, waited))
      else (Inr None, i, waited))"
  by pat_completeness auto
termination
  by (relation "measure (\<lambda>(server, i, delay, waited). maxRetries - i)") (auto simp: maxRetries_def)

declare fetch_loop.simps [simp del]

text \<open>The text taken when the response carries no generated text.\<close>

definition unclearReply :: string where
  "unclearReply = ''I'm sorry, I couldn't generate a clear response right now. Can you try again?''"

text \<open>The \<open>try\<close> block: the loop, the check of \<open>response\<close>, and the generated text.\<close>

definition request_reply ::
  "(nat \<Rightarrow> fetch_outcome) \<Rightarrow> (api_error + string) \<times> nat \<times> int list" where
  "request_reply server =
     (case fetch_loop server 0 1000 [] of
        (Inl e, n, ws) \<Rightarrow> (Inl e, n, ws)
      | (Inr (Some (Reply (Some t))), n, ws) \<Rightarrow> (Inr t, n, ws)
      | (Inr (Some (Reply None)), n, ws) \<Rightarrow> (Inr unclearReply, n, ws)
      | (Inr _, n, ws) \<Rightarrow> (Inl NoResponse, n, ws))"

text \<open>
  \<open>shown\<close> is the text put into the message container and spoken: \<open>None\<close> when
  \<open>handleFunctionalCommands\<close> answered the query itself (\<open>functional\<close>, its result).
\<close>

record assistant_result =
  shown :: "string option"
  fetches :: nat
  waits :: "int list"

definition analyzeToneAndRespond ::
  "nat \<Rightarrow> bool \<Rightarrow> (nat \<Rightarrow> fetch_outcome) \<Rightarrow> assistant_result" where
  "analyzeToneAndRespond userQuery_length functional server =
     (if userQuery_length < 5
      then \<lparr>shown = Some ''I heard very little. Please try speaking a longer phrase.'',
            fetches = 0, waits = []\<rparr>
      else if functional then \<lparr>shown = None, fetches = 0, waits = []\<rparr>
      else (case request_reply server of
              (Inr generatedText, n, ws) \<Rightarrow> \<lparr>shown = Some generatedText, fetches = n, waits = ws\<rparr>
            | (Inl error, n, ws) \<Rightarrow> \<lparr>shown = Some errorMessage, fetches = n, waits = ws\<rparr>))"

text \<open>A rate-limit response.\<close>

fun rate_limited :: "fetch_outcome \<Rightarrow> bool" where
  "rate_limited (Response status b) = (status = 429)"
| "rate_limited Rejected = False"

section \<open>Mood tracker: change detection\<close>

lemma updateCurrentEmotion_events:
  "snd (updateCurrentEmotion True fm x now) =
     (if x \<noteq> lastEmotion fm then [EmotionChange x now] else [])"
  by (cases x) (auto simp: updateCurrentEmotion_def)

lemma updateCurrentEmotion_last:
  "lastEmotion (fst (updateCurrentEmotion True fm x now)) = x"
  by (cases x) (auto simp: updateCurrentEmotion_def)

lemma updateCurrentEmotion_absent: "updateCurrentEmotion False fm x now = (fm, [])"
  by (simp add: updateCurrentEmotion_def)

lemma observe_absent: "observe False fm obs = (fm, [])"
  by (induction obs arbitrary: fm) (auto simp: updateCurrentEmotion_absent)

lemma observe_emotions:
  "map detail_emotion (snd (observe True fm obs)) = tl (remdups_adj (lastEmotion fm # map fst obs))"
proof (induction obs arbitrary: fm)
  case Nil
  show ?case by simp
next
  case (Cons p rest)
  obtain x now where p: "p = (x, now)" by (cases p)
  obtain fm1 evs1 where u: "updateCurrentEmotion True fm x now = (fm1, evs1)"
    by (cases "updateCurrentEmotion True fm x now")
  have l1: "lastEmotion fm1 = x"
    using updateCurrentEmotion_last [of fm x now] u by simp
  have e1: "evs1 = (if x \<noteq> lastEmotion fm then [EmotionChange x now] else [])"
    using updateCurrentEmotion_events [of fm x now] u by simp
  have ih: "map detail_emotion (snd (observe True fm1 rest)) = tl (remdups_adj (x # map fst rest))"
    using Cons.IH [of fm1] l1 by simp
  show ?case
    using ih e1 u p by (auto simp: split_beta)
qed

text \<open>
  C1 (as amended). With the mood element on the page, a call dispatches an
  \<open>emotionchange\<close> event if and only if the observed value differs from \<open>lastEmotion\<close>,
  the absent value included; so the events of a sequence of observations are its maximal
  runs, except a leading run equal to the \<open>lastEmotion\<close> the sequence starts from (absent
  after construction). Without the mood element no call dispatches anything.
\<close>

theorem emotionchange_edge_triggered:
  "snd (updateCurrentEmotion True fm x now) =
     (if x \<noteq> lastEmotion fm then [EmotionChange x now] else [])
   \<and> map detail_emotion (snd (observe True fm obs)) =
       tl (remdups_adj (lastEmotion fm # map fst obs))
   \<and> length (snd (observe True fm obs)) =
       length (remdups_adj (map fst obs))
         - (if obs \<noteq> [] \<and> fst (hd obs) = lastEmotion fm then 1 else 0)
   \<and> observe False fm obs = (fm, [])"
proof -
  have len: "length (snd (observe True fm obs)) =
       length (remdups_adj (map fst obs))
         - (if obs \<noteq> [] \<and> fst (hd obs) = lastEmotion fm then 1 else 0)"
  proof -
    have "length (snd (observe True fm obs)) =
            length (tl (remdups_adj (lastEmotion fm # map fst obs)))"
      using observe_emotions [of fm obs] by (metis length_map)
    then show ?thesis by (cases obs) auto
  qed
  show ?thesis
    using updateCurrentEmotion_events observe_emotions len observe_absent by blast
qed

text \<open>
  C1 as stated fails on the first observation of a fresh tracker when it is the absent
  value: the run \<open>[null]\<close> is one maximal run, and no event is dispatched.
\<close>

theorem emotionchange_leading_absent_counterexample:
  "map detail_emotion (snd (observe True face_mood_init [(None, 0)])) \<noteq> remdups_adj [None]"
  by (simp add: face_mood_init_def updateCurrentEmotion_def)

section \<open>Games gate and redirect\<close>

lemma updateGamesGate_keeps [simp]:
  "sadMoodCount (updateGamesGate d e) = sadMoodCount d"
  "hasRedirected (updateGamesGate d e) = hasRedirected d"
  "location (updateGamesGate d e) = location d"
  by (simp_all add: updateGamesGate_def Let_def)

lemma onEmotionChange_count:
  "sadMoodCount (onEmotionChange d e) = sadMoodCount d + (if e = Some Sad then 1 else 0)"
  by (simp add: onEmotionChange_def Let_def)

lemma gate_run_count:
  "sadMoodCount (gate_run d es) = sadMoodCount d + count_list es (Some Sad)"
  unfolding gate_run_def
  by (induction es arbitrary: d) (auto simp: onEmotionChange_count)

lemma onEmotionChange_latched:
  "hasRedirected d \<Longrightarrow>
     hasRedirected (onEmotionChange d e) \<and> location (onEmotionChange d e) = location d"
  by (simp add: onEmotionChange_def Let_def)

lemma gate_run_latched:
  "hasRedirected d \<Longrightarrow> hasRedirected (gate_run d es) \<and> location (gate_run d es) = location d"
  unfolding gate_run_def
proof (induction es arbitrary: d)
  case Nil
  then show ?case by simp
next
  case (Cons e es)
  have "hasRedirected (onEmotionChange d e)" "location (onEmotionChange d e) = location d"
    using onEmotionChange_latched [OF Cons.prems] by simp_all
  then show ?case using Cons.IH [of "onEmotionChange d e"] by simp
qed

lemma gate_inv_init: "gate_inv (initDashboard btn link cur)"
  by (simp add: gate_inv_def initDashboard_def Let_def)

lemma gate_inv_step: "gate_inv d \<Longrightarrow> gate_inv (onEmotionChange d e)"
  by (auto simp: gate_inv_def onEmotionChange_def Let_def)

lemma gate_inv_run: "gate_inv d \<Longrightarrow> gate_inv (gate_run d es)"
  unfolding gate_run_def
  by (induction es arbitrary: d) (auto simp: gate_inv_step)

lemma gate_step_navigates:
  "gate_inv d \<Longrightarrow>
     location (onEmotionChange d e) =
       (if e = Some Sad \<and> sadMoodCount d + 1 = 3 then location d @ [''games.html'']
        else location d)"
  by (auto simp: gate_inv_def onEmotionChange_def Let_def)

lemma gate_step_button:
  "playBtn (onEmotionChange d e) = map_option (\<lambda>_. e \<noteq> Some Sad) (playBtn d)"
  by (simp add: onEmotionChange_def updateGamesGate_def Let_def)

lemma gate_run_location:
  "location (gate_run (initDashboard btn link cur) es) =
     (if 3 \<le> (if cur = Some Sad then 1 else 0) + count_list es (Some Sad)
      then [''games.html''] else [])"
proof -
  let ?d0 = "initDashboard btn link cur"
  have inv: "gate_inv (gate_run ?d0 es)"
    by (rule gate_inv_run [OF gate_inv_init])
  have c0: "sadMoodCount ?d0 = (if cur = Some Sad then 1 else 0)"
    by (simp add: initDashboard_def Let_def)
  have "sadMoodCount (gate_run ?d0 es) = (if cur = Some Sad then 1 else 0) + count_list es (Some Sad)"
    using gate_run_count [of ?d0 es] c0 by simp
  then show ?thesis using inv by (simp add: gate_inv_def)
qed

text \<open>
  C2. The counter grows by one on every \<open>emotionchange\<close> event whose emotion is sad
  and on no other; it starts at one when the mood is already sad on load and at zero
  otherwise; the gate is unlocked exactly while the emotion of the last event is sad;
  the navigation to the games page happens on the event that brings the counter to
  three, once. On the stream neutral, sad, neutral, sad, happy, sad with no mood on load
  the button is enabled after events 2, 4 and 6 and the navigation happens at event 6.
\<close>

theorem redirect_counter:
  "sadMoodCount (onEmotionChange d e) = sadMoodCount d + (if e = Some Sad then 1 else 0)
   \<and> playBtn (onEmotionChange d e) = map_option (\<lambda>_. e \<noteq> Some Sad) (playBtn d)
   \<and> sadMoodCount (initDashboard btn link cur) = (if cur = Some Sad then 1 else 0)
   \<and> sadMoodCount (gate_run (initDashboard btn link cur) es) =
       (if cur = Some Sad then 1 else 0) + count_list es (Some Sad)
   \<and> location (gate_run (initDashboard btn link cur) es) =
       (if 3 \<le> (if cur = Some Sad then 1 else 0) + count_list es (Some Sad)
        then [''games.html''] else [])
   \<and> location (onEmotionChange (gate_run (initDashboard btn link cur) es) e) =
       (if e = Some Sad \<and> sadMoodCount (gate_run (initDashboard btn link cur) es) + 1 = 3
        then location (gate_run (initDashboard btn link cur) es) @ [''games.html'']
        else location (gate_run (initDashboard btn link cur) es))
   \<and> map gate_view
        (gate_trace (initDashboard (Some True) (Some True) None)
           (map detail_emotion
              (snd (observe True face_mood_init
                 [(Some Neutral, 1), (Some Sad, 2), (Some Neutral, 3), (Some Sad, 4),
                  (Some Happy, 5), (Some Sad, 6)])))) =
       [(Some True, 0, []), (Some False, 1, []), (Some True, 1, []), (Some False, 2, []),
        (Some True, 2, []), (Some False, 3, [''games.html''])]"
proof -
  let ?d0 = "initDashboard btn link cur"
  have c0: "sadMoodCount ?d0 = (if cur = Some Sad then 1 else 0)"
    by (simp add: initDashboard_def Let_def)
  have cnt: "sadMoodCount (gate_run ?d0 es) = (if cur = Some Sad then 1 else 0) + count_list es (Some Sad)"
    using gate_run_count [of ?d0 es] c0 by simp
  have nav: "location (onEmotionChange (gate_run ?d0 es) e) =
       (if e = Some Sad \<and> sadMoodCount (gate_run ?d0 es) + 1 = 3
        then location (gate_run ?d0 es) @ [''games.html'']
        else location (gate_run ?d0 es))"
    by (rule gate_step_navigates [OF gate_inv_run [OF gate_inv_init]])
  have scen: "map gate_view
        (gate_trace (initDashboard (Some True) (Some True) None)
           (map detail_emotion
              (snd (observe True face_mood_init
                 [(Some Neutral, 1), (Some Sad, 2), (Some Neutral, 3), (Some Sad, 4),
                  (Some Happy, 5), (Some Sad, 6)])))) =
       [(Some True, 0, []), (Some False, 1, []), (Some True, 1, []), (Some False, 2, []),
        (Some True, 2, []), (Some False, 3, [''games.html''])]"
    by (simp add: face_mood_init_def updateCurrentEmotion_def initDashboard_def
        onEmotionChange_def updateGamesGate_def gate_view_def Let_def)
  show ?thesis
    using onEmotionChange_count [of d e] gate_step_button [of d e] c0 cnt
      gate_run_location [of btn link cur es] nav scen
    by blast
qed

text \<open>
  C3. Once \<open>hasRedirected\<close> is true it stays true over every sequence of events, and
  no further navigation is made, however far the counter grows.
\<close>

theorem redirect_latch:
  "hasRedirected d \<Longrightarrow> hasRedirected (gate_run d es) \<and> location (gate_run d es) = location d"
  by (rule gate_run_latched)

theorem redirect_latch_witness:
  "hasRedirected (gate_run (initDashboard (Some True) (Some True) None)
       [Some Sad, Some Neutral, Some Sad, Some Happy, Some Sad])
   \<and> hasRedirected (gate_run (gate_run (initDashboard (Some True) (Some True) None)
       [Some Sad, Some Neutral, Some Sad, Some Happy, Some Sad]) [Some Neutral, Some Sad, None, Some Sad])
   \<and> location (gate_run (gate_run (initDashboard (Some True) (Some True) None)
       [Some Sad, Some Neutral, Some Sad, Some Happy, Some Sad]) [Some Neutral, Some Sad, None, Some Sad])
     = [''games.html'']
   \<and> sadMoodCount (gate_run (gate_run (initDashboard (Some True) (Some True) None)
       [Some Sad, Some Neutral, Some Sad, Some Happy, Some Sad]) [Some Neutral, Some Sad, None, Some Sad])
     = 5"
proof -
  let ?d = "gate_run (initDashboard (Some True) (Some True) None)
       [Some Sad, Some Neutral, Some Sad, Some Happy, Some Sad]"
  have h: "hasRedirected ?d"
    by (simp add: gate_run_def initDashboard_def onEmotionChange_def updateGamesGate_def Let_def)
  have l: "location ?d = [''games.html'']"
    by (simp add: gate_run_def initDashboard_def onEmotionChange_def updateGamesGate_def Let_def)
  have c: "sadMoodCount (gate_run ?d [Some Neutral, Some Sad, None, Some Sad]) = 5"
    by (simp add: gate_run_def initDashboard_def onEmotionChange_def updateGamesGate_def Let_def)
  show ?thesis
    using h l c redirect_latch [OF h, of "[Some Neutral, Some Sad, None, Some Sad]"] by simp
qed

section \<open>Heart rate: rolling window, stress check, discarded samples\<close>

lemma last_samples_short: "length ys \<le> k \<Longrightarrow> last_samples k ys = ys"
  by (simp add: last_samples_def)

lemma length_last_samples: "length (last_samples k ys) = min (length ys) k"
  by (simp add: last_samples_def)

lemma last_samples_min: "last_samples (min (length ys) k) ys = last_samples k ys"
  by (simp add: last_samples_def min_def)

lemma window_push:
  assumes "length w \<le> n" "0 < n"
  shows "(if length (w @ [x]) > n then tl (w @ [x]) else w @ [x]) = last_samples n (w @ [x])"
proof (cases "length w = n")
  case True
  then have "w \<noteq> []" using assms(2) by auto
  then show ?thesis using True by (cases w) (simp_all add: last_samples_def)
next
  case False
  then show ?thesis using assms(1) by (simp add: last_samples_def)
qed

lemma last_samples_snoc:
  assumes "0 < n"
  shows "last_samples n (last_samples n ys @ [x]) = last_samples n (ys @ [x])"
proof (cases "length ys \<le> n")
  case True
  then show ?thesis by (simp add: last_samples_short)
next
  case False
  then have "length ys - n + 1 = Suc (length ys) - n" by simp
  then show ?thesis using False assms by (simp add: last_samples_def)
qed

lemma updateHeartRate_window:
  assumes "length (heartRateData m) \<le> avgWindow m" "0 < avgWindow m"
  shows "updateHeartRate m x now =
           (m\<lparr>heartRateData := last_samples (avgWindow m) (heartRateData m @ [x])\<rparr>,
            [HeartRate x (mean (last_samples (avgWindow m) (heartRateData m @ [x]))) now])"
  using window_push [OF assms, of x] by (simp add: updateHeartRate_def Let_def)

lemma insert_samples_snoc:
  "insert_samples m (xs @ [x]) = insert_step (insert_samples m xs) x"
  by (simp add: insert_samples_def)

lemma insert_samples_inv:
  assumes "heartRateData m = []" "0 < avgWindow m"
  shows "heartRateData (fst (insert_samples m xs)) = last_samples (avgWindow m) (map fst xs)
       \<and> avgWindow (fst (insert_samples m xs)) = avgWindow m
       \<and> stressThreshold (fst (insert_samples m xs)) = stressThreshold m
       \<and> length (snd (insert_samples m xs)) = length xs
       \<and> (\<forall>i<length xs. snd (insert_samples m xs) ! i =
            HeartRate (fst (xs ! i))
              (mean (last_samples (avgWindow m) (take (Suc i) (map fst xs)))) (snd (xs ! i)))"
proof (induction xs rule: rev_induct)
  case Nil
  show ?case using assms by (simp add: insert_samples_def last_samples_def)
next
  case (snoc x xs)
  let ?s = "insert_samples m xs"
  let ?n = "avgWindow m"
  have w: "heartRateData (fst ?s) = last_samples ?n (map fst xs)"
    and n: "avgWindow (fst ?s) = ?n"
    and t: "stressThreshold (fst ?s) = stressThreshold m"
    and l: "length (snd ?s) = length xs"
    and e: "\<forall>i<length xs. snd ?s ! i =
            HeartRate (fst (xs ! i)) (mean (last_samples ?n (take (Suc i) (map fst xs)))) (snd (xs ! i))"
    using snoc.IH by simp_all
  have len: "length (heartRateData (fst ?s)) \<le> avgWindow (fst ?s)"
    using w n by (simp add: length_last_samples)
  have pos: "0 < avgWindow (fst ?s)" using n assms(2) by simp
  have kept: "last_samples ?n (heartRateData (fst ?s) @ [fst x]) = last_samples ?n (map fst (xs @ [x]))"
    using w last_samples_snoc [OF assms(2), of "map fst xs" "fst x"] by simp
  have step: "insert_samples m (xs @ [x]) =
      ((fst ?s)\<lparr>heartRateData := last_samples ?n (map fst (xs @ [x]))\<rparr>,
       snd ?s @ [HeartRate (fst x) (mean (last_samples ?n (map fst (xs @ [x])))) (snd x)])"
    using updateHeartRate_window [OF len pos, of "fst x" "snd x"] kept n
    by (simp add: insert_samples_snoc insert_step_def)
  have ev: "\<forall>i<length (xs @ [x]). snd (insert_samples m (xs @ [x])) ! i =
            HeartRate (fst ((xs @ [x]) ! i))
              (mean (last_samples ?n (take (Suc i) (map fst (xs @ [x]))))) (snd ((xs @ [x]) ! i))"
  proof (intro allI impI)
    fix i assume "i < length (xs @ [x])"
    then consider "i < length xs" | "i = length xs" by fastforce
    then show "snd (insert_samples m (xs @ [x])) ! i =
            HeartRate (fst ((xs @ [x]) ! i))
              (mean (last_samples ?n (take (Suc i) (map fst (xs @ [x]))))) (snd ((xs @ [x]) ! i))"
    proof cases
      case 1
      then show ?thesis using e l step by (simp add: nth_append)
    next
      case 2
      then show ?thesis using l step by (simp add: nth_append)
    qed
  qed
  show ?case using step n t l ev by simp
qed

lemma mean_Some: "ys \<noteq> [] \<Longrightarrow> mean ys = Some (of_int (sum_list ys) / of_nat (length ys))"
  by (simp add: mean_def)

lemma onHeartRateChanged_accepts:
  "0 < parseHeartRate data \<Longrightarrow>
     fst (onHeartRateChanged m data now now') = fst (updateHeartRate m (parseHeartRate data) now)
     \<and> take 1 (snd (onHeartRateChanged m data now now')) =
         snd (updateHeartRate m (parseHeartRate data) now)"
  by (simp add: onHeartRateChanged_def updateHeartRate_def Let_def)

text \<open>
  C6. Starting from an empty window of capacity \<open>avgWindow\<close> (10 in the constructor),
  after \<open>k\<close> accepted samples the window holds the last \<open>min k avgWindow\<close> of them
  and never more than \<open>avgWindow\<close>; every accepted sample dispatches one
  \<open>heartrate\<close> event, whose average is the sum of the last \<open>min (i + 1) avgWindow\<close>
  samples up to it divided by their number. An accepted notification does to the window
  what \<open>updateHeartRate\<close> does and dispatches its event first. The quotient is exact
  here; the program rounds it to a double.
\<close>

theorem rolling_window_average:
  assumes "heartRateData m = []" and "0 < avgWindow m"
  shows "heartRateData (fst (insert_samples m xs)) =
           last_samples (min (length xs) (avgWindow m)) (map fst xs)
       \<and> length (heartRateData (fst (insert_samples m xs))) \<le> avgWindow m
       \<and> length (snd (insert_samples m xs)) = length xs
       \<and> (\<forall>i<length xs. snd (insert_samples m xs) ! i =
            HeartRate (fst (xs ! i))
              (Some (of_int (sum_list (last_samples (min (Suc i) (avgWindow m))
                                         (take (Suc i) (map fst xs))))
                     / of_nat (min (Suc i) (avgWindow m))))
              (snd (xs ! i)))
       \<and> (0 < parseHeartRate data \<longrightarrow>
            fst (onHeartRateChanged m' data now now') =
              fst (updateHeartRate m' (parseHeartRate data) now)
            \<and> take 1 (snd (onHeartRateChanged m' data now now')) =
                snd (updateHeartRate m' (parseHeartRate data) now))"
proof -
  note inv = insert_samples_inv [OF assms, of xs]
  have a: "heartRateData (fst (insert_samples m xs)) =
           last_samples (min (length xs) (avgWindow m)) (map fst xs)"
    using inv last_samples_min [of "map fst xs" "avgWindow m"] by simp
  have b: "length (heartRateData (fst (insert_samples m xs))) \<le> avgWindow m"
    using inv by (simp add: length_last_samples)
  have d: "\<forall>i<length xs. snd (insert_samples m xs) ! i =
            HeartRate (fst (xs ! i))
              (Some (of_int (sum_list (last_samples (min (Suc i) (avgWindow m))
                                         (take (Suc i) (map fst xs))))
                     / of_nat (min (Suc i) (avgWindow m))))
              (snd (xs ! i))"
  proof (intro allI impI)
    fix i assume i: "i < length xs"
    let ?p = "take (Suc i) (map fst xs)"
    have lp: "length ?p = Suc i" using i by simp
    have w: "last_samples (min (Suc i) (avgWindow m)) ?p = last_samples (avgWindow m) ?p"
      using last_samples_min [of ?p "avgWindow m"] lp by simp
    have lw: "length (last_samples (avgWindow m) ?p) = min (Suc i) (avgWindow m)"
      using lp by (simp add: length_last_samples)
    then have ne: "last_samples (avgWindow m) ?p \<noteq> []" using assms(2) by auto
    have "snd (insert_samples m xs) ! i =
            HeartRate (fst (xs ! i)) (mean (last_samples (avgWindow m) ?p)) (snd (xs ! i))"
      using inv i by simp
    then show "snd (insert_samples m xs) ! i =
            HeartRate (fst (xs ! i))
              (Some (of_int (sum_list (last_samples (min (Suc i) (avgWindow m)) ?p))
                     / of_nat (min (Suc i) (avgWindow m))))
              (snd (xs ! i))"
      using mean_Some [OF ne] w lw by simp
  qed
  show ?thesis using a b d inv onHeartRateChanged_accepts [of data m' now now'] by simp
qed


theorem rolling_window_average_witness:
  "heartRateData hr_monitor_init = [] \<and> 0 < avgWindow hr_monitor_init
   \<and> heartRateData (fst (insert_samples hr_monitor_init
        [(61, 1), (62, 2), (63, 3), (64, 4), (65, 5), (66, 6), (67, 7), (68, 8), (69, 9),
         (70, 10), (71, 11), (72, 12)])) = [63, 64, 65, 66, 67, 68, 69, 70, 71, 72]
   \<and> length (snd (insert_samples hr_monitor_init
        [(61, 1), (62, 2), (63, 3), (64, 4), (65, 5), (66, 6), (67, 7), (68, 8), (69, 9),
         (70, 10), (71, 11), (72, 12)])) = 12
   \<and> snd (insert_samples hr_monitor_init
        [(61, 1), (62, 2), (63, 3), (64, 4), (65, 5), (66, 6), (67, 7), (68, 8), (69, 9),
         (70, 10), (71, 11), (72, 12)]) ! 2 = HeartRate 63 (Some 62) 3
   \<and> snd (insert_samples hr_monitor_init
        [(61, 1), (62, 2), (63, 3), (64, 4), (65, 5), (66, 6), (67, 7), (68, 8), (69, 9),
         (70, 10), (71, 11), (72, 12)]) ! 11 = HeartRate 72 (Some (135 / 2)) 12
   \<and> 0 < parseHeartRate [0, 72]
   \<and> take 1 (snd (onHeartRateChanged hr_monitor_init [0, 72] 13 14)) =
       snd (updateHeartRate hr_monitor_init (parseHeartRate [0, 72]) 13)"
proof -
  let ?xs = "[(61, 1), (62, 2), (63, 3), (64, 4), (65, 5), (66, 6), (67, 7), (68, 8), (69, 9),
         (70, 10), (71, 11), (72, 12)] :: (int \<times> timestamp) list"
  have h1: "heartRateData hr_monitor_init = []" by (simp add: hr_monitor_init_def)
  have h2: "0 < avgWindow hr_monitor_init" by (simp add: hr_monitor_init_def)
  have h3: "0 < parseHeartRate [0, 72]" by (simp add: parseHeartRate_def)
  note t = rolling_window_average [OF h1 h2, of ?xs "[0, 72]" hr_monitor_init 13 14]
  have n: "avgWindow hr_monitor_init = 10" by (simp add: hr_monitor_init_def)
  have w: "heartRateData (fst (insert_samples hr_monitor_init ?xs)) =
             [63, 64, 65, 66, 67, 68, 69, 70, 71, 72]"
    using t n by (simp add: last_samples_def)
  have l: "length (snd (insert_samples hr_monitor_init ?xs)) = 12"
    using t by simp
  have e2: "snd (insert_samples hr_monitor_init ?xs) ! 2 = HeartRate 63 (Some 62) 3"
  proof -
    have "(2::nat) < length ?xs" by simp
    with t have "snd (insert_samples hr_monitor_init ?xs) ! 2 =
            HeartRate (fst (?xs ! 2))
              (Some (of_int (sum_list (last_samples (min (Suc 2) (avgWindow hr_monitor_init))
                                         (take (Suc 2) (map fst ?xs))))
                     / of_nat (min (Suc 2) (avgWindow hr_monitor_init))))
              (snd (?xs ! 2))" by blast
    then show ?thesis using n by (simp add: last_samples_def)
  qed
  have e11: "snd (insert_samples hr_monitor_init ?xs) ! 11 = HeartRate 72 (Some (135 / 2)) 12"
  proof -
    have "(11::nat) < length ?xs" by simp
    with t have "snd (insert_samples hr_monitor_init ?xs) ! 11 =
            HeartRate (fst (?xs ! 11))
              (Some (of_int (sum_list (last_samples (min (Suc 11) (avgWindow hr_monitor_init))
                                         (take (Suc 11) (map fst ?xs))))
                     / of_nat (min (Suc 11) (avgWindow hr_monitor_init))))
              (snd (?xs ! 11))" by blast
    then show ?thesis using n by (simp add: last_samples_def)
  qed
  have o: "take 1 (snd (onHeartRateChanged hr_monitor_init [0, 72] 13 14)) =
       snd (updateHeartRate hr_monitor_init (parseHeartRate [0, 72]) 13)"
    using t h3 by blast
  show ?thesis using h1 h2 h3 w l e2 e11 o by blast
qed

lemma updateHeartRate_last:
  assumes "heartRateData (fst (updateHeartRate m x now)) \<noteq> []"
  shows "last (heartRateData (fst (updateHeartRate m x now))) = x"
proof (cases "length (heartRateData m @ [x]) > avgWindow m")
  case True
  then have k: "heartRateData (fst (updateHeartRate m x now)) = tl (heartRateData m @ [x])"
    by (simp add: updateHeartRate_def Let_def)
  then have "tl (heartRateData m @ [x]) \<noteq> []" using assms by simp
  then have "last (tl (heartRateData m @ [x])) = last (heartRateData m @ [x])"
    by (rule last_tl [OF disjI2, rotated -1]) 
  then show ?thesis using k by simp
next
  case False
  then show ?thesis by (simp add: updateHeartRate_def Let_def)
qed

text \<open>
  C7. On an accepted sample a \<open>stressdetected\<close> event of type
  \<open>high_heart_rate\<close>, with that sample and the window average, follows the
  \<open>heartrate\<close> event exactly when the window then holds at least five samples and its
  average exceeds the threshold (100 in the constructor): a check of the level, made
  again on every sample. On the stream 70, 72, 150, 155, 160 it is first dispatched at
  the fifth sample, with average 607 / 5; a sixth sample 60 dispatches it again, and a
  seventh that brings the average to 668 / 7 does not.
\<close>

theorem stress_level_check:
  assumes "0 < parseHeartRate data"
  shows "snd (onHeartRateChanged m data now now') =
           HeartRate (parseHeartRate data)
             (mean (heartRateData (fst (onHeartRateChanged m data now now')))) now
           # (if 5 \<le> length (heartRateData (fst (onHeartRateChanged m data now now')))
                 \<and> exceeds (mean (heartRateData (fst (onHeartRateChanged m data now now'))))
                      (stressThreshold m)
              then [StressDetected ''high_heart_rate'' (Some (parseHeartRate data))
                      (mean (heartRateData (fst (onHeartRateChanged m data now now')))) now']
              else [])
       \<and> stressThreshold hr_monitor_init = 100
       \<and> snd (notifications hr_monitor_init
            [([0, 70], 1, 1), ([0, 72], 2, 2), ([0, 150], 3, 3), ([0, 155], 4, 4),
             ([0, 160], 5, 5), ([0, 60], 6, 6), ([0, 1], 7, 7)]) =
           [[HeartRate 70 (Some 70) 1],
            [HeartRate 72 (Some 71) 2],
            [HeartRate 150 (Some (292 / 3)) 3],
            [HeartRate 155 (Some (447 / 4)) 4],
            [HeartRate 160 (Some (607 / 5)) 5,
             StressDetected ''high_heart_rate'' (Some 160) (Some (607 / 5)) 5],
            [HeartRate 60 (Some (667 / 6)) 6,
             StressDetected ''high_heart_rate'' (Some 60) (Some (667 / 6)) 6],
            [HeartRate 1 (Some (668 / 7)) 7]]"
proof -
  let ?hr = "parseHeartRate data"
  let ?m1 = "fst (updateHeartRate m ?hr now)"
  have st: "fst (onHeartRateChanged m data now now') = ?m1"
    using assms by (simp add: onHeartRateChanged_def Let_def split_beta)
  have thr: "stressThreshold ?m1 = stressThreshold m"
    by (simp add: updateHeartRate_def Let_def)
  have ev: "snd (onHeartRateChanged m data now now') =
              HeartRate ?hr (mean (heartRateData ?m1)) now # checkForStress ?m1 ?hr now'"
    using assms by (simp add: onHeartRateChanged_def updateHeartRate_def Let_def)
  have chk: "checkForStress ?m1 ?hr now' =
      (if 5 \<le> length (heartRateData ?m1) \<and> exceeds (mean (heartRateData ?m1)) (stressThreshold m)
       then [StressDetected ''high_heart_rate'' (Some ?hr) (mean (heartRateData ?m1)) now']
       else [])"
  proof (cases "5 \<le> length (heartRateData ?m1)")
    case True
    then have ne: "heartRateData ?m1 \<noteq> []" by auto
    have "last (heartRateData ?m1) = ?hr" by (rule updateHeartRate_last [OF ne])
    then show ?thesis using True ne thr
      by (simp add: checkForStress_def triggerStressRelief_def Let_def)
  next
    case False
    then show ?thesis by (simp add: checkForStress_def Let_def)
  qed
  have scen: "snd (notifications hr_monitor_init
            [([0, 70], 1, 1), ([0, 72], 2, 2), ([0, 150], 3, 3), ([0, 155], 4, 4),
             ([0, 160], 5, 5), ([0, 60], 6, 6), ([0, 1], 7, 7)]) =
           [[HeartRate 70 (Some 70) 1],
            [HeartRate 72 (Some 71) 2],
            [HeartRate 150 (Some (292 / 3)) 3],
            [HeartRate 155 (Some (447 / 4)) 4],
            [HeartRate 160 (Some (607 / 5)) 5,
             StressDetected ''high_heart_rate'' (Some 160) (Some (607 / 5)) 5],
            [HeartRate 60 (Some (667 / 6)) 6,
             StressDetected ''high_heart_rate'' (Some 60) (Some (667 / 6)) 6],
            [HeartRate 1 (Some (668 / 7)) 7]]"
    by (simp add: hr_monitor_init_def onHeartRateChanged_def parseHeartRate_def
        updateHeartRate_def checkForStress_def triggerStressRelief_def mean_def exceeds_def
        Let_def)
  have t0: "stressThreshold hr_monitor_init = 100" by (simp add: hr_monitor_init_def)
  show ?thesis using ev chk st scen t0 by simp
qed

theorem stress_level_check_witness:
  "0 < parseHeartRate [0, 160]
   \<and> snd (onHeartRateChanged
        (hr_monitor_init\<lparr>heartRateData := [70, 72, 150, 155]\<rparr>) [0, 160] 5 6) =
       [HeartRate 160 (Some (607 / 5)) 5,
        StressDetected ''high_heart_rate'' (Some 160) (Some (607 / 5)) 6]"
proof -
  let ?m = "hr_monitor_init\<lparr>heartRateData := [70, 72, 150, 155]\<rparr>"
  have h: "0 < parseHeartRate [0, 160]" by (simp add: parseHeartRate_def)
  have p: "parseHeartRate [0, 160] = 160" by (simp add: parseHeartRate_def)
  have w: "heartRateData (fst (onHeartRateChanged ?m [0, 160] 5 6)) = [70, 72, 150, 155, 160]"
    by (simp add: onHeartRateChanged_def updateHeartRate_def hr_monitor_init_def p Let_def)
  have t: "stressThreshold ?m = 100" by (simp add: hr_monitor_init_def)
  show ?thesis
    using h stress_level_check [OF h, of ?m 5 6] p w t
    by (simp add: mean_def exceeds_def)
qed

text \<open>
  C8. A notification whose parsed heart rate is zero or negative changes no field of the
  monitor and dispatches no event; the handler returns normally.
\<close>

theorem nonpositive_sample_discarded:
  "parseHeartRate data \<le> 0 \<Longrightarrow> onHeartRateChanged m data now now' = (m, [])"
  by (simp add: onHeartRateChanged_def Let_def)

theorem nonpositive_sample_discarded_witness:
  "parseHeartRate [0, 0] \<le> 0
   \<and> onHeartRateChanged (hr_monitor_init\<lparr>heartRateData := [70, 72, 150]\<rparr>) [0, 0] 4 4 =
       (hr_monitor_init\<lparr>heartRateData := [70, 72, 150]\<rparr>, [])"
proof -
  have h: "parseHeartRate [0, 0] \<le> 0" by (simp add: parseHeartRate_def)
  show ?thesis
    using h nonpositive_sample_discarded [OF h, of "hr_monitor_init\<lparr>heartRateData := [70, 72, 150]\<rparr>" 4 4]
    by blast
qed

section \<open>Mood counselor: trigger, cooldown, abort\<close>

lemma onEmotion_config [simp]:
  "triggerEmotion (onEmotion c e now now') = triggerEmotion c"
  "sustainMs (onEmotion c e now now') = sustainMs c"
  "cooldownMs (onEmotion c e now now') = cooldownMs c"
  "messages (onEmotion c e now now') = messages c"
  by (simp_all add: onEmotion_def speakSupport_def Let_def split: list.splits)

lemma utterance_end_config [simp]:
  "triggerEmotion (utterance_end c) = triggerEmotion c"
  "sustainMs (utterance_end c) = sustainMs c"
  "cooldownMs (utterance_end c) = cooldownMs c"
  "messages (utterance_end c) = messages c"
  "cooldownUntil (utterance_end c) = cooldownUntil c"
  "sadSince (utterance_end c) = sadSince c"
  by (simp_all add: utterance_end_def split: option.splits list.splits)

lemma counselor_step_config [simp]:
  "triggerEmotion (counselor_step c i) = triggerEmotion c"
  "sustainMs (counselor_step c i) = sustainMs c"
  "cooldownMs (counselor_step c i) = cooldownMs c"
  "messages (counselor_step c i) = messages c"
  by (cases i; simp)+

lemma counselor_run_config [simp]:
  "triggerEmotion (counselor_run c ins) = triggerEmotion c"
  "sustainMs (counselor_run c ins) = sustainMs c"
  "cooldownMs (counselor_run c ins) = cooldownMs c"
  "messages (counselor_run c ins) = messages c"
  unfolding counselor_run_def
  by (induction ins arbitrary: c; simp)+

lemma counselor_run_Cons [simp]:
  "counselor_run c (i # ins) = counselor_run (counselor_step c i) ins"
  by (simp add: counselor_run_def)

lemma counselor_run_Nil [simp]: "counselor_run c [] = c"
  by (simp add: counselor_run_def)

text \<open>Whether \<open>_onEmotion\<close> calls \<open>_speakSupport\<close>.\<close>

lemma onEmotion_triggers:
  assumes "\<not> speaking c" "sustained c now" "cooldownUntil c \<le> now"
  shows "onEmotion c (Some (triggerEmotion c)) now now' =
           speakSupport (c\<lparr>sadSince := Some (case sadSince c of None \<Rightarrow> now | Some t \<Rightarrow> t)\<rparr>) now'"
  using assms by (simp add: onEmotion_def sustained_def Let_def)

lemma onEmotion_quiet:
  assumes "speaking c \<or> \<not> sustained c now \<or> now < cooldownUntil c \<or> e \<noteq> Some (triggerEmotion c)"
  shows "onEmotion c e now now' =
           c\<lparr>sadSince := (if e = Some (triggerEmotion c)
                           then Some (case sadSince c of None \<Rightarrow> now | Some t \<Rightarrow> t) else None)\<rparr>"
  using assms by (auto simp: onEmotion_def sustained_def Let_def)

lemma speakSupport_starts:
  assumes "messages c = line # rest"
  shows "speakSupport c now =
           c\<lparr>speaking := True, cooldownUntil := now + cooldownMs c,
             spoken := spoken c @ [line], pending := Some rest\<rparr>"
  using assms by (simp add: speakSupport_def Let_def)

text \<open>
  While every emotion event comes before the cooldown's end, no second sequence starts:
  the cooldown stays, and the log grows only along the messages of the running sequence.
\<close>

lemma quiet_step:
  assumes "cooldownUntil c = u" "input_before u i"
    and "messages c = done @ rest" "spoken c = base @ done"
    and "pending c = None \<or> pending c = Some rest"
  shows "cooldownUntil (counselor_step c i) = u
       \<and> (\<exists>done' rest'. messages c = done' @ rest' \<and> spoken (counselor_step c i) = base @ done'
            \<and> (pending (counselor_step c i) = None \<or> pending (counselor_step c i) = Some rest'))"
proof (cases i)
  case (Emotion e now now')
  then have "now < cooldownUntil c" using assms(1,2) by simp
  then have "counselor_step c i =
           c\<lparr>sadSince := (if e = Some (triggerEmotion c)
                           then Some (case sadSince c of None \<Rightarrow> now | Some t \<Rightarrow> t) else None)\<rparr>"
    using onEmotion_quiet [of c now e now'] Emotion by simp
  then show ?thesis using assms by auto
next
  case UtteranceEnd
  show ?thesis
  proof (cases "pending c")
    case None
    then show ?thesis using assms UtteranceEnd by (auto simp: utterance_end_def)
  next
    case (Some r)
    then have r: "r = rest" using assms(5) by simp
    show ?thesis
    proof (cases "sadSince c = None \<or> rest = []")
      case True
      then have "spoken (utterance_end c) = spoken c" "pending (utterance_end c) = None"
        using Some r by (auto simp: utterance_end_def)
      then show ?thesis using assms UtteranceEnd by auto
    next
      case False
      then obtain line rest' where l: "rest = line # rest'" by (cases rest) auto
      have "spoken (utterance_end c) = base @ (done @ [line])"
        "pending (utterance_end c) = Some rest'"
        using Some r l False assms(4) by (auto simp: utterance_end_def)
      moreover have "messages c = (done @ [line]) @ rest'" using assms(3) l by simp
      ultimately show ?thesis using assms(1) UtteranceEnd by (metis counselor_step.simps(2) utterance_end_config(5))
    qed
  qed
qed

lemma quiet_run:
  assumes "list_all (input_before u) ins" "cooldownUntil c = u"
    and "messages c = done @ rest" "spoken c = base @ done"
    and "pending c = None \<or> pending c = Some rest"
  shows "cooldownUntil (counselor_run c ins) = u
       \<and> (\<exists>done' rest'. messages c = done' @ rest' \<and> spoken (counselor_run c ins) = base @ done')"
  using assms
proof (induction ins arbitrary: c "done" rest)
  case Nil
  then show ?case by auto
next
  case (Cons i ins)
  have b: "input_before u i" and bs: "list_all (input_before u) ins"
    using Cons.prems(1) by simp_all
  obtain done' rest' where s: "cooldownUntil (counselor_step c i) = u"
      "messages c = done' @ rest'" "spoken (counselor_step c i) = base @ done'"
      "pending (counselor_step c i) = None \<or> pending (counselor_step c i) = Some rest'"
    using quiet_step [OF Cons.prems(2) b Cons.prems(3,4,5)] by blast
  have m: "messages (counselor_step c i) = done' @ rest'" using s(2) by simp
  show ?case
    using Cons.IH [OF bs s(1) m s(3) s(4)] by simp
qed

text \<open>
  C4. The sustain threshold is 5000 ms when the options give none. An event with the
  trigger emotion makes the counselor speak only if it is not speaking, the streak has
  lasted the sustain threshold and the clock has reached
  \<open>cooldownUntil\<close>; when all three hold it does: the flag is set, the first message
  is spoken, and \<open>cooldownUntil\<close> becomes the clock reading of the trigger plus the
  cooldown. While every later emotion event comes before that time, the cooldown stays
  and the log grows by messages of this one sequence only; a sustained event at or
  after that time, with the sequence over, starts a second sequence.
\<close>

theorem sustained_trigger_and_cooldown:
  assumes "messages c = line # rest"
    and "\<not> speaking c" and "sustained c now" and "cooldownUntil c \<le> now"
    and "list_all (input_before (now' + cooldownMs c)) ins"
  shows "sustainMs (MoodCounselor (options\<lparr>opt_sustainMs := None\<rparr>)) = 5000
       \<and> (spoken (onEmotion c0 (Some (triggerEmotion c0)) t t') \<noteq> spoken c0
            \<longrightarrow> \<not> speaking c0 \<and> sustained c0 t \<and> cooldownUntil c0 \<le> t)
       \<and> speaking (onEmotion c (Some (triggerEmotion c)) now now')
       \<and> cooldownUntil (onEmotion c (Some (triggerEmotion c)) now now') = now' + cooldownMs c
       \<and> spoken (onEmotion c (Some (triggerEmotion c)) now now') = spoken c @ [line]
       \<and> cooldownUntil (counselor_run (onEmotion c (Some (triggerEmotion c)) now now') ins)
            = now' + cooldownMs c
       \<and> (\<exists>k. spoken (counselor_run (onEmotion c (Some (triggerEmotion c)) now now') ins)
            = spoken c @ take k (messages c))
       \<and> (\<not> speaking (counselor_run (onEmotion c (Some (triggerEmotion c)) now now') ins)
            \<and> sustained (counselor_run (onEmotion c (Some (triggerEmotion c)) now now') ins) now2
            \<and> now' + cooldownMs c \<le> now2
          \<longrightarrow> spoken (onEmotion
                 (counselor_run (onEmotion c (Some (triggerEmotion c)) now now') ins)
                 (Some (triggerEmotion c)) now2 now2')
               = spoken (counselor_run (onEmotion c (Some (triggerEmotion c)) now now') ins) @ [line]
            \<and> cooldownUntil (onEmotion
                 (counselor_run (onEmotion c (Some (triggerEmotion c)) now now') ins)
                 (Some (triggerEmotion c)) now2 now2')
               = now2' + cooldownMs c)"
proof -
  let ?c1 = "onEmotion c (Some (triggerEmotion c)) now now'"
  let ?c2 = "counselor_run ?c1 ins"
  have only: "spoken (onEmotion c0 (Some (triggerEmotion c0)) t t') \<noteq> spoken c0
            \<longrightarrow> \<not> speaking c0 \<and> sustained c0 t \<and> cooldownUntil c0 \<le> t"
  proof (intro impI)
    assume ch: "spoken (onEmotion c0 (Some (triggerEmotion c0)) t t') \<noteq> spoken c0"
    show "\<not> speaking c0 \<and> sustained c0 t \<and> cooldownUntil c0 \<le> t"
    proof (rule ccontr)
      assume "\<not> (\<not> speaking c0 \<and> sustained c0 t \<and> cooldownUntil c0 \<le> t)"
      then have "speaking c0 \<or> \<not> sustained c0 t \<or> t < cooldownUntil c0
                 \<or> Some (triggerEmotion c0) \<noteq> Some (triggerEmotion c0)" by auto
      from onEmotion_quiet [OF this, of t'] have
        "spoken (onEmotion c0 (Some (triggerEmotion c0)) t t') = spoken c0" by simp
      with ch show False by simp
    qed
  qed
  have c1: "?c1 = (c\<lparr>sadSince := Some (case sadSince c of None \<Rightarrow> now | Some t \<Rightarrow> t)\<rparr>)
                    \<lparr>speaking := True, cooldownUntil := now' + cooldownMs c,
                     spoken := spoken c @ [line], pending := Some rest\<rparr>"
    using onEmotion_triggers [OF assms(2,3,4), of now'] assms(1)
    by (simp add: speakSupport_starts)
  have a1: "speaking ?c1" and a2: "cooldownUntil ?c1 = now' + cooldownMs c"
    and a3: "spoken ?c1 = spoken c @ [line]" and a4: "pending ?c1 = Some rest"
    by (simp_all add: c1)
  have m1: "messages ?c1 = [line] @ rest" using assms(1) by simp
  have s1: "spoken ?c1 = spoken c @ [line]" by (rule a3)
  have p1: "pending ?c1 = None \<or> pending ?c1 = Some rest" using a4 by simp
  from quiet_run [OF assms(5) a2 m1 s1 p1]
  obtain done' rest' where q: "cooldownUntil ?c2 = now' + cooldownMs c"
      "messages ?c1 = done' @ rest'" "spoken ?c2 = spoken c @ done'"
    by blast
  have "done' = take (length done') (messages c)" using q(2) by simp
  then have one: "\<exists>k. spoken ?c2 = spoken c @ take k (messages c)" using q(3) by metis
  have again: "\<not> speaking ?c2 \<and> sustained ?c2 now2 \<and> now' + cooldownMs c \<le> now2
          \<longrightarrow> spoken (onEmotion ?c2 (Some (triggerEmotion c)) now2 now2') = spoken ?c2 @ [line]
            \<and> cooldownUntil (onEmotion ?c2 (Some (triggerEmotion c)) now2 now2')
                = now2' + cooldownMs c"
  proof (intro impI)
    assume h: "\<not> speaking ?c2 \<and> sustained ?c2 now2 \<and> now' + cooldownMs c \<le> now2"
    then have cd: "cooldownUntil ?c2 \<le> now2" using q(1) by simp
    have tr: "triggerEmotion ?c2 = triggerEmotion c" by simp
    have ms: "messages (?c2\<lparr>sadSince := Some (case sadSince ?c2 of None \<Rightarrow> now2 | Some t \<Rightarrow> t)\<rparr>)
                = line # rest" using assms(1) by simp
    have "onEmotion ?c2 (Some (triggerEmotion ?c2)) now2 now2' =
          speakSupport (?c2\<lparr>sadSince := Some (case sadSince ?c2 of None \<Rightarrow> now2 | Some t \<Rightarrow> t)\<rparr>) now2'"
      using onEmotion_triggers [of ?c2 now2 now2'] h cd by blast
    then show "spoken (onEmotion ?c2 (Some (triggerEmotion c)) now2 now2') = spoken ?c2 @ [line]
            \<and> cooldownUntil (onEmotion ?c2 (Some (triggerEmotion c)) now2 now2')
                = now2' + cooldownMs c"
      using tr speakSupport_starts [OF ms, of now2'] by simp
  qed
  have dflt: "sustainMs (MoodCounselor (options\<lparr>opt_sustainMs := None\<rparr>)) = 5000"
    by (simp add: MoodCounselor_def or_default_def)
  show ?thesis using dflt only a1 a2 a3 q(1) one again by blast
qed


lemmas counselor_eval =
  page_counselor_def MoodCounselor_def or_default_def onEmotion_def speakSupport_def
  utterance_end_def sustained_def Let_def

theorem sustained_trigger_and_cooldown_witness:
  "messages (counselor_run page_counselor [Emotion (Some Sad) 1000 1000]) =
     hd (messages page_counselor) # tl (messages page_counselor)
   \<and> \<not> speaking (counselor_run page_counselor [Emotion (Some Sad) 1000 1000])
   \<and> sustained (counselor_run page_counselor [Emotion (Some Sad) 1000 1000]) 6000
   \<and> cooldownUntil (counselor_run page_counselor [Emotion (Some Sad) 1000 1000]) \<le> 6000
   \<and> list_all (input_before (6001 + 90000))
        [UtteranceEnd, Emotion (Some Sad) 30000 30000, UtteranceEnd, UtteranceEnd, UtteranceEnd]
   \<and> spoken (counselor_run page_counselor
        [Emotion (Some Sad) 1000 1000, Emotion (Some Sad) 6000 6001]) =
       [hd (messages page_counselor)]
   \<and> cooldownUntil (counselor_run page_counselor
        [Emotion (Some Sad) 1000 1000, Emotion (Some Sad) 6000 6001]) = 96001
   \<and> cooldownUntil (counselor_run page_counselor
        [Emotion (Some Sad) 1000 1000, Emotion (Some Sad) 6000 6001,
         UtteranceEnd, Emotion (Some Sad) 30000 30000, UtteranceEnd, UtteranceEnd,
         UtteranceEnd]) = 96001
   \<and> spoken (counselor_run page_counselor
        [Emotion (Some Sad) 1000 1000, Emotion (Some Sad) 6000 6001,
         UtteranceEnd, Emotion (Some Sad) 30000 30000, UtteranceEnd, UtteranceEnd,
         UtteranceEnd]) = messages page_counselor
   \<and> spoken (counselor_run page_counselor
        [Emotion (Some Sad) 1000 1000, Emotion (Some Sad) 6000 6001,
         UtteranceEnd, Emotion (Some Sad) 30000 30000, UtteranceEnd, UtteranceEnd,
         UtteranceEnd, Emotion (Some Sad) 96001 96002]) =
       messages page_counselor @ [hd (messages page_counselor)]
   \<and> cooldownUntil (counselor_run page_counselor
        [Emotion (Some Sad) 1000 1000, Emotion (Some Sad) 6000 6001,
         UtteranceEnd, Emotion (Some Sad) 30000 30000, UtteranceEnd, UtteranceEnd,
         UtteranceEnd, Emotion (Some Sad) 96001 96002]) = 186002"
proof -
  let ?c = "counselor_run page_counselor [Emotion (Some Sad) 1000 1000]"
  let ?ins = "[UtteranceEnd, Emotion (Some Sad) 30000 30000, UtteranceEnd, UtteranceEnd,
               UtteranceEnd]"
  let ?c1 = "onEmotion ?c (Some (triggerEmotion ?c)) 6000 6001"
  let ?c2 = "counselor_run ?c1 ?ins"
  have tr: "triggerEmotion ?c = Sad" by (simp add: counselor_eval)
  have cm: "cooldownMs ?c = 90000" by (simp add: counselor_eval)
  have h1: "messages ?c = hd (messages page_counselor) # tl (messages page_counselor)"
    by (simp add: counselor_eval)
  have h2: "\<not> speaking ?c" by (simp add: counselor_eval)
  have h3: "sustained ?c 6000" by (simp add: counselor_eval)
  have h4: "cooldownUntil ?c \<le> 6000" by (simp add: counselor_eval)
  have h5: "list_all (input_before (6001 + cooldownMs ?c)) ?ins" by (simp add: counselor_eval)
  note t = sustained_trigger_and_cooldown
    [OF h1 h2 h3 h4 h5, where ?now2.0 = 96001 and ?now2' = 96002]
  have s0: "spoken ?c = []" by (simp add: counselor_eval)
  have sp2: "spoken ?c2 = messages page_counselor" by (simp add: counselor_eval)
  have g: "\<not> speaking ?c2 \<and> sustained ?c2 96001 \<and> 6001 + cooldownMs ?c \<le> 96001"
    by (simp add: counselor_eval)
  have r1: "spoken ?c1 = spoken ?c @ [hd (messages page_counselor)]" using t by blast
  have r2: "cooldownUntil ?c1 = 6001 + cooldownMs ?c" using t by blast
  have r3: "cooldownUntil ?c2 = 6001 + cooldownMs ?c" using t by blast
  have r4: "spoken (onEmotion ?c2 (Some (triggerEmotion ?c)) 96001 96002) =
              spoken ?c2 @ [hd (messages page_counselor)]" using t g by blast
  have r5: "cooldownUntil (onEmotion ?c2 (Some (triggerEmotion ?c)) 96001 96002) =
              96002 + cooldownMs ?c" using t g by blast
  have run1: "counselor_run page_counselor
        [Emotion (Some Sad) 1000 1000, Emotion (Some Sad) 6000 6001] = ?c1"
    using tr by simp
  have run2: "counselor_run page_counselor
        [Emotion (Some Sad) 1000 1000, Emotion (Some Sad) 6000 6001,
         UtteranceEnd, Emotion (Some Sad) 30000 30000, UtteranceEnd, UtteranceEnd,
         UtteranceEnd] = ?c2"
    using tr by simp
  have run3: "counselor_run page_counselor
        [Emotion (Some Sad) 1000 1000, Emotion (Some Sad) 6000 6001,
         UtteranceEnd, Emotion (Some Sad) 30000 30000, UtteranceEnd, UtteranceEnd,
         UtteranceEnd, Emotion (Some Sad) 96001 96002] =
        onEmotion ?c2 (Some (triggerEmotion ?c)) 96001 96002"
    using tr by simp
  show ?thesis
    unfolding run1 run2 run3
    using h1 h2 h3 h4 h5 r1 r2 r3 r4 r5 s0 sp2 cm by simp
qed

text \<open>While a sequence speaks, an emotion event changes the streak start only.\<close>

lemma onEmotion_while_speaking:
  assumes "speaking c"
  shows "speaking (onEmotion c e now now')" "pending (onEmotion c e now now') = pending c"
    "spoken (onEmotion c e now now') = spoken c"
    "sadSince (onEmotion c e now now') =
       (if e = Some (triggerEmotion c)
        then Some (case sadSince c of None \<Rightarrow> now | Some t \<Rightarrow> t) else None)"
  using onEmotion_quiet [of c now e now'] assms by simp_all

lemma away_run:
  assumes "list_all (away_from (triggerEmotion c)) ins"
  shows "pending (counselor_run c ins) = pending c \<and> spoken (counselor_run c ins) = spoken c
       \<and> speaking (counselor_run c ins) = speaking c
       \<and> (ins \<noteq> [] \<longrightarrow> sadSince (counselor_run c ins) = None)"
  using assms
proof (induction ins arbitrary: c)
  case Nil
  show ?case by simp
next
  case (Cons i ins)
  from Cons.prems obtain e now now' where i: "i = Emotion e now now'"
    and e: "e \<noteq> Some (triggerEmotion c)" by (cases i) auto
  have st: "counselor_step c i = c\<lparr>sadSince := None\<rparr>"
    using onEmotion_quiet [of c now e now'] e i by simp
  have rest: "list_all (away_from (triggerEmotion (counselor_step c i))) ins"
    using Cons.prems by simp
  have ih: "pending (counselor_run (counselor_step c i) ins) = pending c
      \<and> spoken (counselor_run (counselor_step c i) ins) = spoken c
      \<and> speaking (counselor_run (counselor_step c i) ins) = speaking c
      \<and> (ins \<noteq> [] \<longrightarrow> sadSince (counselor_run (counselor_step c i) ins) = None)"
    using Cons.IH [OF rest] st by simp
  show ?case
  proof (cases ins)
    case Nil
    then show ?thesis using st by simp
  next
    case (Cons j js)
    then show ?thesis using ih by simp
  qed
qed

lemma sequence_ends:
  assumes "pending c = Some rest" "speaking c" "length rest < count_list ins UtteranceEnd"
  shows "\<exists>n\<le>length ins. \<not> speaking (counselor_run c (take n ins))"
  using assms
proof (induction ins arbitrary: c rest)
  case Nil
  then show ?case by simp
next
  case (Cons i ins)
  show ?case
  proof (cases i)
    case (Emotion e now now')
    have p: "pending (counselor_step c i) = Some rest" and s: "speaking (counselor_step c i)"
      using onEmotion_while_speaking [OF Cons.prems(2), of e now now'] Cons.prems(1) Emotion
      by simp_all
    have k: "length rest < count_list ins UtteranceEnd" using Cons.prems(3) Emotion by simp
    from Cons.IH [OF p s k] obtain n where
      "n \<le> length ins" "\<not> speaking (counselor_run (counselor_step c i) (take n ins))" by blast
    then have "Suc n \<le> length (i # ins) \<and> \<not> speaking (counselor_run c (take (Suc n) (i # ins)))"
      by simp
    then show ?thesis by blast
  next
    case UtteranceEnd
    show ?thesis
    proof (cases "speaking (utterance_end c)")
      case False
      then have "Suc 0 \<le> length (i # ins) \<and> \<not> speaking (counselor_run c (take (Suc 0) (i # ins)))"
        using UtteranceEnd by simp
      then show ?thesis by blast
    next
      case True
      then obtain line rest' where r: "rest = line # rest'" and ns: "sadSince c \<noteq> None"
        using Cons.prems(1) by (cases rest) (auto simp: utterance_end_def split: if_splits)
      have p: "pending (counselor_step c i) = Some rest'"
        using Cons.prems(1) r ns UtteranceEnd by (auto simp: utterance_end_def)
      have s: "speaking (counselor_step c i)" using True UtteranceEnd by simp
      have k: "length rest' < count_list ins UtteranceEnd"
        using Cons.prems(3) r UtteranceEnd by simp
      from Cons.IH [OF p s k] obtain n where
        "n \<le> length ins" "\<not> speaking (counselor_run (counselor_step c i) (take n ins))" by blast
      then have "Suc n \<le> length (i # ins) \<and> \<not> speaking (counselor_run c (take (Suc n) (i # ins)))"
        by simp
      then show ?thesis by blast
    qed
  qed
qed

text \<open>
  What the loop does keep. While a sequence speaks, if the mood has left the trigger
  emotion and is still away when the utterance ends, no remaining message is spoken and
  the flag is cleared. And whenever the utterances of a sequence end (one more end than
  messages remain), the flag is false at some point of the run, whatever emotion events
  come between.
\<close>

lemma speech_abort_and_release:
  assumes "pending c = Some rest" and "speaking c"
  shows "(ins \<noteq> [] \<and> list_all (away_from (triggerEmotion c)) ins \<longrightarrow>
            \<not> speaking (utterance_end (counselor_run c ins))
            \<and> pending (utterance_end (counselor_run c ins)) = None
            \<and> spoken (utterance_end (counselor_run c ins)) = spoken c)
       \<and> (length rest < count_list ins' UtteranceEnd \<longrightarrow>
            (\<exists>n\<le>length ins'. \<not> speaking (counselor_run c (take n ins'))))"
proof -
  have abort: "ins \<noteq> [] \<and> list_all (away_from (triggerEmotion c)) ins \<longrightarrow>
            \<not> speaking (utterance_end (counselor_run c ins))
            \<and> pending (utterance_end (counselor_run c ins)) = None
            \<and> spoken (utterance_end (counselor_run c ins)) = spoken c"
  proof (intro impI)
    assume h: "ins \<noteq> [] \<and> list_all (away_from (triggerEmotion c)) ins"
    let ?c' = "counselor_run c ins"
    have "pending ?c' = Some rest" "spoken ?c' = spoken c" "sadSince ?c' = None"
      using away_run [of c ins] h assms(1) by simp_all
    then show "\<not> speaking (utterance_end ?c') \<and> pending (utterance_end ?c') = None
            \<and> spoken (utterance_end ?c') = spoken c"
      by (simp add: utterance_end_def)
  qed
  have rel: "length rest < count_list ins' UtteranceEnd \<longrightarrow>
            (\<exists>n\<le>length ins'. \<not> speaking (counselor_run c (take n ins')))"
    using sequence_ends [OF assms] by blast
  show ?thesis using abort rel by blast
qed


lemma speech_abort_and_release_example:
  "pending (counselor_run page_counselor
       [Emotion (Some Sad) 1000 1000, Emotion (Some Sad) 6000 6000]) =
     Some (tl (messages page_counselor))
   \<and> speaking (counselor_run page_counselor
       [Emotion (Some Sad) 1000 1000, Emotion (Some Sad) 6000 6000])
   \<and> [Emotion (Some Neutral) 7000 7000, Emotion None 7200 7200] \<noteq> []
   \<and> list_all (away_from Sad) [Emotion (Some Neutral) 7000 7000, Emotion None 7200 7200]
   \<and> \<not> speaking (counselor_run page_counselor
       [Emotion (Some Sad) 1000 1000, Emotion (Some Sad) 6000 6000,
        Emotion (Some Neutral) 7000 7000, Emotion None 7200 7200, UtteranceEnd])
   \<and> spoken (counselor_run page_counselor
       [Emotion (Some Sad) 1000 1000, Emotion (Some Sad) 6000 6000,
        Emotion (Some Neutral) 7000 7000, Emotion None 7200 7200, UtteranceEnd]) =
      [hd (messages page_counselor)]
   \<and> length (tl (messages page_counselor)) <
        count_list [UtteranceEnd, Emotion (Some Sad) 9000 9000, UtteranceEnd, UtteranceEnd,
                    UtteranceEnd] UtteranceEnd
   \<and> (\<exists>n. n \<le> 5 \<and> \<not> speaking (counselor_run
        (counselor_run page_counselor
           [Emotion (Some Sad) 1000 1000, Emotion (Some Sad) 6000 6000])
        (take n [UtteranceEnd, Emotion (Some Sad) 9000 9000, UtteranceEnd, UtteranceEnd,
                 UtteranceEnd])))"
proof -
  let ?c = "counselor_run page_counselor
       [Emotion (Some Sad) 1000 1000, Emotion (Some Sad) 6000 6000]"
  let ?ins = "[Emotion (Some Neutral) 7000 7000, Emotion None 7200 7200]"
  let ?ins' = "[UtteranceEnd, Emotion (Some Sad) 9000 9000, UtteranceEnd, UtteranceEnd,
                UtteranceEnd]"
  have h1: "pending ?c = Some (tl (messages page_counselor))" by (simp add: counselor_eval)
  have h2: "speaking ?c" by (simp add: counselor_eval)
  have tr: "triggerEmotion ?c = Sad" by (simp add: counselor_eval)
  have s0: "spoken ?c = [hd (messages page_counselor)]" by (simp add: counselor_eval)
  have a: "?ins \<noteq> [] \<and> list_all (away_from (triggerEmotion ?c)) ?ins"
    by (simp add: counselor_eval)
  have k: "length (tl (messages page_counselor)) < count_list ?ins' UtteranceEnd"
    by (simp add: counselor_eval)
  note t = speech_abort_and_release [OF h1 h2, of ?ins ?ins']
  have r1: "\<not> speaking (utterance_end (counselor_run ?c ?ins))"
    and r2: "spoken (utterance_end (counselor_run ?c ?ins)) = spoken ?c"
    using t a by blast+
  have r3: "\<exists>n\<le>length ?ins'. \<not> speaking (counselor_run ?c (take n ?ins'))"
    using t k by blast
  have run: "counselor_run page_counselor
       [Emotion (Some Sad) 1000 1000, Emotion (Some Sad) 6000 6000,
        Emotion (Some Neutral) 7000 7000, Emotion None 7200 7200, UtteranceEnd] =
      utterance_end (counselor_run ?c ?ins)"
    by simp
  have a': "?ins \<noteq> []" "list_all (away_from Sad) ?ins" by simp_all
  have r2': "spoken (utterance_end (counselor_run ?c ?ins)) = [hd (messages page_counselor)]"
    using r2 s0 by simp
  have r3': "\<exists>n. n \<le> 5 \<and> \<not> speaking (counselor_run ?c (take n ?ins'))"
  proof -
    from r3 obtain n where "n \<le> length ?ins'" "\<not> speaking (counselor_run ?c (take n ?ins'))"
      by blast
    moreover have "length ?ins' = 5" by simp
    ultimately show ?thesis by metis
  qed
  show ?thesis
    unfolding run using h1 h2 a' r1 r2' r3' k by blast
qed


lemma speak_rest:
  assumes "pending c = Some rest" "sadSince c \<noteq> None"
  shows "spoken (counselor_run c (replicate (length rest) UtteranceEnd)) = spoken c @ rest"
  using assms
proof (induction rest arbitrary: c)
  case Nil
  then show ?case by simp
next
  case (Cons line rest)
  have p: "pending (utterance_end c) = Some rest"
    and s: "spoken (utterance_end c) = spoken c @ [line]"
    using Cons.prems by (auto simp: utterance_end_def)
  have n: "sadSince (utterance_end c) \<noteq> None" using Cons.prems(2) by simp
  show ?case using Cons.IH [OF p n] s by simp
qed

text \<open>
  C10. At the end of an utterance the loop looks at \<open>_sadSince\<close> as it is then and at
  nothing else. So when the mood leaves the trigger emotion and returns before the
  utterance ends, the streak start is set again, the sequence goes on with the next
  message, and the further ends of utterances speak all that remain.
\<close>

theorem abort_check_sees_current_streak_only:
  assumes "pending c = Some (line # rest)" and "speaking c"
    and "e \<noteq> Some (triggerEmotion c)"
  shows "spoken (utterance_end c) = (if sadSince c = None then spoken c else spoken c @ [line])
       \<and> sadSince (onEmotion c e t1 t1') = None
       \<and> spoken (counselor_run c
            [Emotion e t1 t1', Emotion (Some (triggerEmotion c)) t2 t2', UtteranceEnd]) =
           spoken c @ [line]
       \<and> pending (counselor_run c
            [Emotion e t1 t1', Emotion (Some (triggerEmotion c)) t2 t2', UtteranceEnd]) =
           Some rest
       \<and> speaking (counselor_run c
            [Emotion e t1 t1', Emotion (Some (triggerEmotion c)) t2 t2', UtteranceEnd])
       \<and> spoken (counselor_run c
            ([Emotion e t1 t1', Emotion (Some (triggerEmotion c)) t2 t2', UtteranceEnd]
             @ replicate (length rest) UtteranceEnd)) =
           spoken c @ line # rest"
proof -
  let ?a = "onEmotion c e t1 t1'"
  let ?b = "onEmotion ?a (Some (triggerEmotion c)) t2 t2'"
  have chk: "spoken (utterance_end c) = (if sadSince c = None then spoken c else spoken c @ [line])"
    using assms(1) by (simp add: utterance_end_def)
  have a: "speaking ?a" "pending ?a = Some (line # rest)" "spoken ?a = spoken c"
    "sadSince ?a = None"
    using onEmotion_while_speaking [OF assms(2), of e t1 t1'] assms(1,3) by simp_all
  have b: "speaking ?b" "pending ?b = Some (line # rest)" "spoken ?b = spoken c"
    "sadSince ?b = Some t2"
    using onEmotion_while_speaking [OF a(1), of "Some (triggerEmotion c)" t2 t2'] a by simp_all
  have u: "spoken (utterance_end ?b) = spoken c @ [line]" "pending (utterance_end ?b) = Some rest"
    "speaking (utterance_end ?b)" "sadSince (utterance_end ?b) \<noteq> None"
    using b by (simp_all add: utterance_end_def)
  have run: "counselor_run c
      [Emotion e t1 t1', Emotion (Some (triggerEmotion c)) t2 t2', UtteranceEnd] = utterance_end ?b"
    by simp
  have all: "spoken (counselor_run c
            ([Emotion e t1 t1', Emotion (Some (triggerEmotion c)) t2 t2', UtteranceEnd]
             @ replicate (length rest) UtteranceEnd)) = spoken c @ line # rest"
    using speak_rest [OF u(2) u(4)] u(1) by (simp add: counselor_run_def)
  show ?thesis unfolding run using chk a(4) u(1,2,3) all run by simp
qed

theorem abort_check_sees_current_streak_only_witness:
  "pending (counselor_run page_counselor
       [Emotion (Some Sad) 0 0, Emotion (Some Sad) 5000 5002, UtteranceEnd]) =
     Some (messages page_counselor ! 2 # [messages page_counselor ! 3])
   \<and> speaking (counselor_run page_counselor
       [Emotion (Some Sad) 0 0, Emotion (Some Sad) 5000 5002, UtteranceEnd])
   \<and> Some Angry \<noteq> Some Sad
   \<and> spoken (counselor_run page_counselor
       [Emotion (Some Sad) 0 0, Emotion (Some Sad) 5000 5002, UtteranceEnd,
        Emotion (Some Angry) 9000 9000, Emotion (Some Sad) 9200 9200, UtteranceEnd]) =
      take 3 (messages page_counselor)
   \<and> speaking (counselor_run page_counselor
       [Emotion (Some Sad) 0 0, Emotion (Some Sad) 5000 5002, UtteranceEnd,
        Emotion (Some Angry) 9000 9000, Emotion (Some Sad) 9200 9200, UtteranceEnd])
   \<and> spoken (counselor_run page_counselor
       [Emotion (Some Sad) 0 0, Emotion (Some Sad) 5000 5002, UtteranceEnd,
        Emotion (Some Angry) 9000 9000, Emotion (Some Sad) 9200 9200, UtteranceEnd,
        UtteranceEnd]) = messages page_counselor"
proof -
  let ?c = "counselor_run page_counselor
       [Emotion (Some Sad) 0 0, Emotion (Some Sad) 5000 5002, UtteranceEnd]"
  let ?l = "messages page_counselor ! 2"
  let ?r = "[messages page_counselor ! 3]"
  have h1: "pending ?c = Some (?l # ?r)" by (simp add: counselor_eval)
  have h2: "speaking ?c" by (simp add: counselor_eval)
  have tr: "triggerEmotion ?c = Sad" by (simp add: counselor_eval)
  have h3: "Some Angry \<noteq> Some (triggerEmotion ?c)" by (simp add: counselor_eval)
  have s0: "spoken ?c = take 2 (messages page_counselor)" by (simp add: counselor_eval)
  have m: "take 2 (messages page_counselor) @ [?l] = take 3 (messages page_counselor)"
    "take 2 (messages page_counselor) @ ?l # ?r = messages page_counselor"
    by (simp_all add: counselor_eval)
  note t = abort_check_sees_current_streak_only [OF h1 h2 h3, of 9000 9000 9200 9200]
  have r1: "spoken (counselor_run ?c
       [Emotion (Some Angry) 9000 9000, Emotion (Some (triggerEmotion ?c)) 9200 9200,
        UtteranceEnd]) = spoken ?c @ [?l]"
    and r2: "speaking (counselor_run ?c
       [Emotion (Some Angry) 9000 9000, Emotion (Some (triggerEmotion ?c)) 9200 9200,
        UtteranceEnd])"
    and r3: "spoken (counselor_run ?c
       ([Emotion (Some Angry) 9000 9000, Emotion (Some (triggerEmotion ?c)) 9200 9200,
         UtteranceEnd] @ replicate (length ?r) UtteranceEnd)) = spoken ?c @ ?l # ?r"
    using t by blast+
  have run1: "counselor_run page_counselor
       [Emotion (Some Sad) 0 0, Emotion (Some Sad) 5000 5002, UtteranceEnd,
        Emotion (Some Angry) 9000 9000, Emotion (Some Sad) 9200 9200, UtteranceEnd] =
      counselor_run ?c
       [Emotion (Some Angry) 9000 9000, Emotion (Some (triggerEmotion ?c)) 9200 9200,
        UtteranceEnd]"
    unfolding tr by simp
  have run2: "counselor_run page_counselor
       [Emotion (Some Sad) 0 0, Emotion (Some Sad) 5000 5002, UtteranceEnd,
        Emotion (Some Angry) 9000 9000, Emotion (Some Sad) 9200 9200, UtteranceEnd,
        UtteranceEnd] =
      counselor_run ?c
       ([Emotion (Some Angry) 9000 9000, Emotion (Some (triggerEmotion ?c)) 9200 9200,
         UtteranceEnd] @ replicate (length ?r) UtteranceEnd)"
    unfolding tr by simp
  show ?thesis
    unfolding run1 run2 using h1 h2 r1 r2 r3 s0 m by simp
qed

text \<open>
  A remark on the composition. The tracker dispatches an event only when the emotion
  changes, so an event with the trigger emotion always finds the streak start unset
  and records the present time: the elapsed time is then zero. Fed by the tracker's
  events alone, a counselor with a positive sustain threshold never speaks, whatever
  the clock readings.
\<close>

lemma counselor_silent_step:
  assumes "0 < sustainMs c" "sadSince c = None"
  shows "spoken (onEmotion c e now now') = spoken c \<and> pending (onEmotion c e now now') = pending c
       \<and> speaking (onEmotion c e now now') = speaking c
       \<and> (e \<noteq> Some (triggerEmotion c) \<longrightarrow> sadSince (onEmotion c e now now') = None)"
  using assms by (simp add: onEmotion_def Let_def)

lemma counselor_silent_on_changes:
  assumes "0 < sustainMs c" "distinct_adj (prev # map fst evs)"
    and "prev \<noteq> Some (triggerEmotion c) \<longrightarrow> sadSince c = None"
  shows "spoken (counselor_run c (map (\<lambda>(e, now, now'). Emotion e now now') evs)) = spoken c"
  using assms
proof (induction evs arbitrary: c prev)
  case Nil
  show ?case by simp
next
  case (Cons x evs)
  obtain e now now' where x: "x = (e, now, now')" by (cases x)
  have ne: "prev \<noteq> e" and d: "distinct_adj (e # map fst evs)"
    using Cons.prems(2) x by simp_all
  let ?c' = "onEmotion c e now now'"
  have st: "spoken ?c' = spoken c \<and> (e \<noteq> Some (triggerEmotion c) \<longrightarrow> sadSince ?c' = None)"
  proof (cases "e = Some (triggerEmotion c)")
    case True
    then have "sadSince c = None" using ne Cons.prems(3) by auto
    then show ?thesis using counselor_silent_step [OF Cons.prems(1)] by blast
  next
    case False
    then show ?thesis by (simp add: onEmotion_def)
  qed
  have s': "0 < sustainMs ?c'" using Cons.prems(1) by simp
  have i': "e \<noteq> Some (triggerEmotion ?c') \<longrightarrow> sadSince ?c' = None" using st by simp
  show ?case using Cons.IH [OF s' d i'] st x by simp
qed


lemma counselor_silent_on_tracker_stream:
  assumes "0 < sustainMs c"
    and "lastEmotion fm \<noteq> Some (triggerEmotion c) \<longrightarrow> sadSince c = None"
  shows "spoken (counselor_run c
           (map (\<lambda>ev. Emotion (detail_emotion ev) (t ev) (t' ev)) (snd (observe True fm obs))))
         = spoken c"
proof -
  let ?evs = "map (\<lambda>ev. (detail_emotion ev, t ev, t' ev)) (snd (observe True fm obs))"
  have "remdups_adj (lastEmotion fm # map fst obs) \<noteq> []" by simp
  moreover have "hd (remdups_adj (lastEmotion fm # map fst obs)) = lastEmotion fm"
    by (simp add: hd_remdups_adj)
  ultimately have "remdups_adj (lastEmotion fm # map fst obs) =
      lastEmotion fm # tl (remdups_adj (lastEmotion fm # map fst obs))"
    by (metis list.collapse)
  moreover have "map fst ?evs = tl (remdups_adj (lastEmotion fm # map fst obs))"
    using observe_emotions [of fm obs] by (simp add: comp_def)
  ultimately have d: "distinct_adj (lastEmotion fm # map fst ?evs)"
    by (metis distinct_adj_remdups_adj)
  have "map (\<lambda>(e, now, now'). Emotion e now now') ?evs =
        map (\<lambda>ev. Emotion (detail_emotion ev) (t ev) (t' ev)) (snd (observe True fm obs))"
    by simp
  then show ?thesis
    using counselor_silent_on_changes [OF assms(1) d assms(2)] by (simp add: comp_def)
qed

section \<open>Assistant: retries of the remote call\<close>

lemma ok_429 [simp]: "\<not> ok 429"
  by (simp add: ok_def)

lemma fetch_loop_2:
  "fetch_loop server 2 d w =
     (case server 2 of
        Rejected \<Rightarrow> (Inl FetchRejected, 3, w)
      | Response status b \<Rightarrow>
          if ok status
          then (case b of Malformed \<Rightarrow> (Inl JsonRejected, 3, w) | _ \<Rightarrow> (Inr (Some b), 3, w))
          else (Inl (ApiStatus status), 3, w))"
  by (subst fetch_loop.simps) (simp add: maxRetries_def split: fetch_outcome.splits body.splits)

lemma fetch_loop_1:
  "fetch_loop server 1 d w =
     (case server 1 of
        Rejected \<Rightarrow> (Inl FetchRejected, 2, w)
      | Response status b \<Rightarrow>
          if ok status
          then (case b of Malformed \<Rightarrow> (Inl JsonRejected, 2, w) | _ \<Rightarrow> (Inr (Some b), 2, w))
          else if status = 429 then fetch_loop server 2 (d * 2) (w @ [d])
          else (Inl (ApiStatus status), 2, w))"
  by (subst fetch_loop.simps)
     (simp add: maxRetries_def numeral_2_eq_2 split: fetch_outcome.splits body.splits)

lemma fetch_loop_0:
  "fetch_loop server 0 d w =
     (case server 0 of
        Rejected \<Rightarrow> (Inl FetchRejected, 1, w)
      | Response status b \<Rightarrow>
          if ok status
          then (case b of Malformed \<Rightarrow> (Inl JsonRejected, 1, w) | _ \<Rightarrow> (Inr (Some b), 1, w))
          else if status = 429 then fetch_loop server 1 (d * 2) (w @ [d])
          else (Inl (ApiStatus status), 1, w))"
  by (subst fetch_loop.simps)
     (simp add: maxRetries_def split: fetch_outcome.splits body.splits)

text \<open>The loop unrolled: at most three fetches, with waits of 1000 and 2000 between.\<close>

lemma fetch_loop_unrolled:
  "fetch_loop server 0 d w =
     (case server 0 of
        Rejected \<Rightarrow> (Inl FetchRejected, 1, w)
      | Response status b \<Rightarrow>
          if ok status
          then (case b of Malformed \<Rightarrow> (Inl JsonRejected, 1, w) | _ \<Rightarrow> (Inr (Some b), 1, w))
          else if status = 429
          then (case server 1 of
                  Rejected \<Rightarrow> (Inl FetchRejected, 2, w @ [d])
                | Response status b \<Rightarrow>
                    if ok status
                    then (case b of Malformed \<Rightarrow> (Inl JsonRejected, 2, w @ [d])
                          | _ \<Rightarrow> (Inr (Some b), 2, w @ [d]))
                    else if status = 429
                    then (case server 2 of
                            Rejected \<Rightarrow> (Inl FetchRejected, 3, w @ [d, d * 2])
                          | Response status b \<Rightarrow>
                              if ok status
                              then (case b of Malformed \<Rightarrow> (Inl JsonRejected, 3, w @ [d, d * 2])
                                    | _ \<Rightarrow> (Inr (Some b), 3, w @ [d, d * 2]))
                              else (Inl (ApiStatus status), 3, w @ [d, d * 2]))
                    else (Inl (ApiStatus status), 2, w @ [d]))
          else (Inl (ApiStatus status), 1, w))"
  unfolding fetch_loop_0 fetch_loop_1 fetch_loop_2
  by (simp split: fetch_outcome.splits body.splits)

text \<open>The result of the handler in terms of the loop's.\<close>

lemma analyze_fields:
  assumes "5 \<le> n"
  shows "fetches (analyzeToneAndRespond n False server) = fst (snd (fetch_loop server 0 1000 []))"
    and "waits (analyzeToneAndRespond n False server) = snd (snd (fetch_loop server 0 1000 []))"
    and "shown (analyzeToneAndRespond n False server) \<noteq> None"
    and "isl (fst (fetch_loop server 0 1000 [])) \<Longrightarrow>
           shown (analyzeToneAndRespond n False server) = Some errorMessage"
  using assms
  by (auto simp: analyzeToneAndRespond_def request_reply_def isl_def
      split: prod.splits sum.splits option.splits body.splits)

lemma loop_bounds:
  "1 \<le> fst (snd (fetch_loop server 0 1000 [])) \<and> fst (snd (fetch_loop server 0 1000 [])) \<le> 3
   \<and> snd (snd (fetch_loop server 0 1000 [])) =
       take (fst (snd (fetch_loop server 0 1000 [])) - 1) [1000, 2000]"
  by (simp add: fetch_loop_unrolled split: fetch_outcome.splits body.splits)

lemma loop_retried_only_429:
  assumes "i < fst (snd (fetch_loop server 0 1000 [])) - 1"
  shows "rate_limited (server i)"
proof -
  have "fst (snd (fetch_loop server 0 1000 [])) \<le> 3" using loop_bounds by blast
  then consider "i = 0" | "i = 1" using assms by linarith
  then show ?thesis
  proof cases
    case 1
    show ?thesis using assms unfolding 1
      by (cases "server 0")
         (auto simp: fetch_loop_unrolled split: fetch_outcome.splits body.splits if_splits)
  next
    case 2
    show ?thesis using assms unfolding 2
      by (cases "server 0"; cases "server 1")
         (auto simp: fetch_loop_unrolled split: fetch_outcome.splits body.splits if_splits)
  qed
qed

lemma loop_all_429:
  assumes "rate_limited (server 0)" "rate_limited (server 1)" "rate_limited (server 2)"
  shows "fetch_loop server 0 1000 [] = (Inl (ApiStatus 429), 3, [1000, 2000])"
  using assms
  by (cases "server 0"; cases "server 1"; cases "server 2") (simp_all add: fetch_loop_unrolled)

lemma loop_other_status:
  assumes "k < 3" "\<forall>i<k. rate_limited (server i)"
    and "server k = Response status b" "\<not> ok status" "status \<noteq> 429"
  shows "fetch_loop server 0 1000 [] = (Inl (ApiStatus status), k + 1, take k [1000, 2000])"
proof -
  consider "k = 0" | "k = 1" | "k = 2" using assms(1) by linarith
  then show ?thesis
  proof cases
    case 1
    then show ?thesis using assms by (simp add: fetch_loop_unrolled)
  next
    case 2
    then have r0: "rate_limited (server 0)" using assms(2) by simp
    show ?thesis using assms(3,4,5) 2 r0
      by (cases "server 0") (simp_all add: fetch_loop_unrolled)
  next
    case 3
    then have r0: "rate_limited (server 0)" and r1: "rate_limited (server 1)"
      using assms(2) by simp_all
    show ?thesis using assms(3,4,5) 3 r0 r1
      by (cases "server 0"; cases "server 1") (simp_all add: fetch_loop_unrolled)
  qed
qed

lemmas assistant_eval =
  analyzeToneAndRespond_def request_reply_def fetch_loop_unrolled

lemma fetches_bounds:
  "5 \<le> n \<Longrightarrow> 1 \<le> fetches (analyzeToneAndRespond n False server)
     \<and> fetches (analyzeToneAndRespond n False server) \<le> 3
     \<and> waits (analyzeToneAndRespond n False server) =
         take (fetches (analyzeToneAndRespond n False server) - 1) [1000, 2000]
     \<and> shown (analyzeToneAndRespond n False server) \<noteq> None"
  using analyze_fields(1,2,3) [of n server] loop_bounds [of server] by simp

lemma retried_only_429:
  assumes "5 \<le> n" "i < fetches (analyzeToneAndRespond n False server) - 1"
  shows "rate_limited (server i)"
  using loop_retried_only_429 [of i server] assms analyze_fields(1) [OF assms(1), of server]
  by simp

lemma all_429:
  assumes "5 \<le> n" "rate_limited (server 0)" "rate_limited (server 1)" "rate_limited (server 2)"
  shows "fetches (analyzeToneAndRespond n False server) = 3
       \<and> waits (analyzeToneAndRespond n False server) = [1000, 2000]
       \<and> shown (analyzeToneAndRespond n False server) = Some errorMessage"
  using analyze_fields [OF assms(1), of server] loop_all_429 [OF assms(2,3,4)] by simp

lemma other_status_fails_at_once:
  assumes "5 \<le> n" "k < 3" "\<forall>i<k. rate_limited (server i)"
    and "server k = Response status b" "\<not> ok status" "status \<noteq> 429"
  shows "fetches (analyzeToneAndRespond n False server) = k + 1
       \<and> waits (analyzeToneAndRespond n False server) = take k [1000, 2000]
       \<and> shown (analyzeToneAndRespond n False server) = Some errorMessage"
  using analyze_fields [OF assms(1), of server] loop_other_status [OF assms(2,3,4,5,6)] by simp

text \<open>
  C9 (as amended). A query that reaches the remote call is fetched at least once and at
  most three times in all; the waits are 1000 ms before the second fetch and 2000 ms
  before the third; a fetch is repeated only after a rate-limit response (429). Three
  rate-limit responses in a row end in the fixed fallback message after the third
  fetch; any other non-success response ends in it at once, with no further fetch. The
  handler always returns with a message to show.
\<close>

theorem remote_call_retry_and_fallback:
  assumes "5 \<le> n"
  shows "1 \<le> fetches (analyzeToneAndRespond n False server)
       \<and> fetches (analyzeToneAndRespond n False server) \<le> 3
       \<and> waits (analyzeToneAndRespond n False server) =
           take (fetches (analyzeToneAndRespond n False server) - 1) [1000, 2000]
       \<and> shown (analyzeToneAndRespond n False server) \<noteq> None
       \<and> (\<forall>i < fetches (analyzeToneAndRespond n False server) - 1. rate_limited (server i))
       \<and> (rate_limited (server 0) \<and> rate_limited (server 1) \<and> rate_limited (server 2) \<longrightarrow>
            fetches (analyzeToneAndRespond n False server) = 3
            \<and> waits (analyzeToneAndRespond n False server) = [1000, 2000]
            \<and> shown (analyzeToneAndRespond n False server) = Some errorMessage)
       \<and> (k < 3 \<and> (\<forall>i<k. rate_limited (server i)) \<and> server k = Response status b
            \<and> \<not> ok status \<and> status \<noteq> 429 \<longrightarrow>
            fetches (analyzeToneAndRespond n False server) = k + 1
            \<and> waits (analyzeToneAndRespond n False server) = take k [1000, 2000]
            \<and> shown (analyzeToneAndRespond n False server) = Some errorMessage)"
  using fetches_bounds [OF assms, of server] retried_only_429 [OF assms, of _ server]
    all_429 [OF assms, of server] other_status_fails_at_once [OF assms, of k server status b]
  by blast

theorem remote_call_retry_and_fallback_witness:
  "(5::nat) \<le> 12
   \<and> rate_limited ((\<lambda>i. if i = 0 then Response 429 Falsy else Response 500 Falsy) 0)
   \<and> \<not> ok 500
   \<and> fetches (analyzeToneAndRespond 12 False
        (\<lambda>i. if i = 0 then Response 429 Falsy else Response 500 Falsy)) = 2
   \<and> waits (analyzeToneAndRespond 12 False
        (\<lambda>i. if i = 0 then Response 429 Falsy else Response 500 Falsy)) = [1000]
   \<and> shown (analyzeToneAndRespond 12 False
        (\<lambda>i. if i = 0 then Response 429 Falsy else Response 500 Falsy)) = Some errorMessage"
proof -
  let ?server = "\<lambda>i::nat. if i = 0 then Response 429 Falsy else Response 500 Falsy"
  have h: "(5::nat) \<le> 12" by simp
  have r0: "rate_limited (?server 0)" by simp
  have nok: "\<not> ok 500" by (simp add: ok_def)
  have pre: "(1::nat) < 3 \<and> (\<forall>i<1. rate_limited (?server i)) \<and> ?server 1 = Response 500 Falsy
            \<and> \<not> ok 500 \<and> (500::nat) \<noteq> 429"
    using nok by simp
  note t = remote_call_retry_and_fallback [OF h, of ?server 1 500 Falsy]
  have f: "fetches (analyzeToneAndRespond 12 False ?server) = 1 + 1"
    and w: "waits (analyzeToneAndRespond 12 False ?server) = take 1 [1000, 2000]"
    and s: "shown (analyzeToneAndRespond 12 False ?server) = Some errorMessage"
    using t pre by blast+
  show ?thesis using h r0 nok f w s by simp
qed

text \<open>
  C9 as stated fails on a server that always answers 429: the loop makes three
  fetches, so the rate-limit response is retried twice, not three times.
\<close>

theorem third_rate_limit_not_retried_counterexample:
  "fetches (analyzeToneAndRespond 12 False (\<lambda>i. Response 429 Falsy)) = 3
   \<and> waits (analyzeToneAndRespond 12 False (\<lambda>i. Response 429 Falsy)) = [1000, 2000]
   \<and> length (waits (analyzeToneAndRespond 12 False (\<lambda>i. Response 429 Falsy))) \<noteq> 3
   \<and> shown (analyzeToneAndRespond 12 False (\<lambda>i. Response 429 Falsy)) = Some errorMessage"
  by (simp add: assistant_eval)

end
